theory Spec2Isabelle
  imports Complex_Main "HOL-Library.Word" "HOL-Library.Log_Nat"
begin

section \<open>Beam upload service: shared types\<close>

text \<open>
  The server side of Beam (\<^verbatim>\<open>internal/server\<close>) is embedded as pure functions.
  Go's \<^verbatim>\<open>[]byte\<close> is a list of 8-bit words, a Go \<^verbatim>\<open>string\<close> is a list of
  bytes (\<^typ>\<open>string\<close>, so \<^const>\<open>length\<close> is Go's \<^verbatim>\<open>len\<close>), a
  \<^verbatim>\<open>time.Time\<close> is an instant counted in nanoseconds, and an \<^verbatim>\<open>error\<close> result
  is the left summand of a sum type.
\<close>

type_synonym byte = "8 word"
type_synonym time = int

text \<open>
  The sentinel errors of \<^verbatim>\<open>service/upload.go\<close>. An error built with
  \<^verbatim>\<open>fmt.Errorf("%w: ...", ErrInvalidZip, ...)\<close> still satisfies \<^verbatim>\<open>errors.Is\<close> for its
  sentinel and is modelled by the sentinel. \<open>ErrInternal\<close> stands for every other wrapped
  error (its string is the message prefix), \<open>Panic\<close> for a run-time panic.
\<close>

datatype err =
    ErrNotFound
  | ErrExpired
  | ErrPasswordRequired
  | ErrInvalidPassword
  | ErrInvalidToken
  | ErrFileTooLarge
  | ErrInvalidZip
  | ErrDangerousFile
  | ErrInternal string
  | Panic

section \<open>Secure token generator\<close>

definition charset :: string where
  "charset = ''abcdefghijklmnopqrstuvwxyzABCDEFGHIJKLMNOPQRSTUVWXYZ0123456789''"

text \<open>
  \<^verbatim>\<open>crypto/rand\<close> is an input of the model: \<open>rnd i\<close> is the outcome of the \<open>i\<close>-th
  read of the random source, \<open>None\<close> when the read fails. \<^verbatim>\<open>rand.Int(rand.Reader, max)\<close>
  returns a value in \<open>[0, max)\<close>, which is \<open>r mod max\<close> for the raw draw \<open>r\<close>.
\<close>

definition randInt :: "(nat \<Rightarrow> nat option) \<Rightarrow> nat \<Rightarrow> nat \<Rightarrow> nat option" where
  "randInt rnd i mx = (case rnd i of None \<Rightarrow> None | Some r \<Rightarrow> Some (r mod mx))"

text \<open>
  The loop of \<^verbatim>\<open>generateSecureToken\<close>: \<open>pos\<close> is the index of the next draw, \<open>n\<close> the
  number of characters still to produce, \<open>result\<close> the characters written so far.
\<close>

fun tokenLoop :: "(nat \<Rightarrow> nat option) \<Rightarrow> nat \<Rightarrow> nat \<Rightarrow> string \<Rightarrow> err + string" where
  "tokenLoop rnd pos 0 result = Inr result"
| "tokenLoop rnd pos (Suc n) result =
     (case randInt rnd pos (length charset) of
        None \<Rightarrow> Inl (ErrInternal ''crypto/rand failure'')
      | Some k \<Rightarrow> tokenLoop rnd (Suc pos) n (result @ [charset ! k]))"

text \<open>
  \<^verbatim>\<open>make([]byte, length)\<close> panics for a negative length; otherwise the loop runs
  \<open>length\<close> times, starting at draw \<open>pos\<close>.
\<close>

definition generateSecureToken :: "(nat \<Rightarrow> nat option) \<Rightarrow> nat \<Rightarrow> int \<Rightarrow> err + string" where
  "generateSecureToken rnd pos len =
     (if len < 0 then Inl Panic else tokenLoop rnd pos (nat len) [])"

section \<open>Archive validator\<close>

definition validateZipMagicBytes :: "byte list \<Rightarrow> err option" where
  "validateZipMagicBytes data =
     (if length data < 4 then Some ErrInvalidZip
      else if data ! 0 = 0x50 \<and> data ! 1 = 0x4B then
        (if (data ! 2 = 0x03 \<and> data ! 3 = 0x04) \<or> (data ! 2 = 0x05 \<and> data ! 3 = 0x06)
         then None
         else Some ErrInvalidZip)
      else Some ErrInvalidZip)"

text \<open>
  \<^verbatim>\<open>filepath.Ext\<close> on a system whose path separator is \<^verbatim>\<open>/\<close>: scan from the last byte
  towards the first, stop at a separator, return the suffix that starts at the first dot
  met. \<open>extScan\<close> walks the reversed path; \<open>acc\<close> holds the bytes already passed.
\<close>

fun extScan :: "string \<Rightarrow> string \<Rightarrow> string" where
  "extScan [] acc = []"
| "extScan (c # cs) acc =
     (if c = CHR ''/'' then []
      else if c = CHR ''.'' then c # acc
      else extScan cs (c # acc))"

definition Ext :: "string \<Rightarrow> string" where
  "Ext path = extScan (rev path) []"

text \<open>
  \<^verbatim>\<open>strings.ToLower\<close>: a string of ASCII bytes only has \<^verbatim>\<open>A\<close>..\<^verbatim>\<open>Z\<close> shifted by 32;
  any other string goes through the Unicode case tables, which are a parameter
  (\<open>unicodeLower\<close>) of the model.
\<close>

definition asciiLower :: "char \<Rightarrow> char" where
  "asciiLower c =
     (let n = (of_char c :: nat) in if 65 \<le> n \<and> n \<le> 90 then char_of (n + 32) else c)"

definition isASCII :: "string \<Rightarrow> bool" where
  "isASCII s = list_all (\<lambda>c. (of_char c :: nat) < 128) s"

definition ToLower :: "(string \<Rightarrow> string) \<Rightarrow> string \<Rightarrow> string" where
  "ToLower unicodeLower s = (if isASCII s then map asciiLower s else unicodeLower s)"

definition dangerousExtensions :: "string list" where
  "dangerousExtensions =
     [''.exe'', ''.bat'', ''.cmd'', ''.com'',
      ''.scr'', ''.pif'', ''.vbs'', ''.vbe'',
      ''.wsf'', ''.wsh'', ''.msi'', ''.hta'',
      ''.lnk'', ''.cpl'', ''.inf'', ''.reg'']"

text \<open>
  An entry of \<^verbatim>\<open>zip.Reader.File\<close>: the two header fields the scan reads.
  \<^verbatim>\<open>UncompressedSize64\<close> is a \<^verbatim>\<open>uint64\<close>.
\<close>

record zip_file =
  Name :: string
  UncompressedSize64 :: "64 word"

text \<open>
  The loop of \<^verbatim>\<open>validateAndMeasureZip\<close>. \<open>totalUncompressed\<close> is an \<^verbatim>\<open>int64\<close>:
  the conversion \<^verbatim>\<open>int64(f.UncompressedSize64)\<close> keeps the 64 bits, the addition wraps,
  and the result is read as two's complement.
\<close>

fun scanEntries :: "(string \<Rightarrow> string) \<Rightarrow> zip_file list \<Rightarrow> 64 word \<Rightarrow> err + int" where
  "scanEntries unicodeLower [] totalUncompressed = Inr (sint totalUncompressed)"
| "scanEntries unicodeLower (f # fs) totalUncompressed =
     (let ext = ToLower unicodeLower (Ext (Name f)) in
      if ext \<in> set dangerousExtensions then Inl ErrDangerousFile
      else scanEntries unicodeLower fs (totalUncompressed + UncompressedSize64 f))"

text \<open>
  \<^verbatim>\<open>zip.NewReader\<close> belongs to the Go standard library and is a parameter: it gives
  the entries of the central directory, or \<open>None\<close> when the buffer does not parse.
\<close>

definition validateAndMeasureZip ::
  "(byte list \<Rightarrow> zip_file list option) \<Rightarrow> (string \<Rightarrow> string) \<Rightarrow> byte list \<Rightarrow> err + int" where
  "validateAndMeasureZip zipNewReader unicodeLower data =
     (case zipNewReader data of
        None \<Rightarrow> Inl ErrInvalidZip
      | Some files \<Rightarrow> scanEntries unicodeLower files 0)"

section \<open>Filename sanitization\<close>

definition backslash :: char where
  "backslash = CHR 0x5C"

text \<open>\<^verbatim>\<open>strings.ReplaceAll(name, "\\", "/")\<close>.\<close>

definition replaceBackslashes :: "string \<Rightarrow> string" where
  "replaceBackslashes name = map (\<lambda>c. if c = backslash then CHR ''/'' else c) name"

text \<open>
  \<^verbatim>\<open>filepath.Base\<close> with separator \<^verbatim>\<open>/\<close> and no volume name: the empty path gives
  \<^verbatim>\<open>.\<close>, trailing separators are stripped, the part after the last separator is kept,
  and a path of separators only gives \<^verbatim>\<open>/\<close>.
\<close>

definition Base :: "string \<Rightarrow> string" where
  "Base path =
     (if path = [] then ''.''
      else
        let stripped = rev (dropWhile (\<lambda>c. c = CHR ''/'') (rev path));
            lastElem = rev (takeWhile (\<lambda>c. c \<noteq> CHR ''/'') (rev stripped))
        in if lastElem = [] then ''/'' else lastElem)"

text \<open>
  \<^verbatim>\<open>sanitizeFilename\<close>. The slice \<^verbatim>\<open>name[:255-len(ext)]\<close> panics when its bound is
  negative, that is when the extension alone is longer than 255 bytes.
\<close>

definition sanitizeFilename :: "string \<Rightarrow> err + string" where
  "sanitizeFilename name0 =
     (let name1 = replaceBackslashes name0;
          name2 = Base name1
      in case (if length name2 > 255
               then (let ext = Ext name2 in
                     if length ext > 255 then Inl Panic
                     else Inr (take (255 - length ext) name2 @ ext))
               else Inr name2) of
           Inl e \<Rightarrow> Inl e
         | Inr name3 \<Rightarrow> Inr (if name3 = [] \<or> name3 = ''.'' then ''upload.zip'' else name3))"

section \<open>Record store\<close>

text \<open>
  \<^verbatim>\<open>database.Upload\<close>, one row of the table \<^verbatim>\<open>uploads\<close>. The two sizes are
  \<^verbatim>\<open>int64\<close> values, given by the integer they denote.
\<close>

record Upload =
  ID :: string
  Filename :: string
  OriginalSize :: int
  CompressedSize :: int
  FileHash :: string
  UploadedAt :: time
  ExpiresAt :: time
  DownloadCount :: int
  PasswordHash :: "string option"
  DeletionToken :: string
  CreatedAt :: time

text \<open>
  What a call of the repository can return besides a row: the sentinel
  \<^verbatim>\<open>ErrUploadNotFound\<close>, or any other failure of the database.
\<close>

datatype db_err = ErrUploadNotFound | DbFailure

text \<open>
  The environment of the service. Everything the code reaches outside the repository is a
  field here: the random source, SHA-256, the archive parser, the Unicode case tables,
  bcrypt, \<^verbatim>\<open>filepath.Join\<close> (which joins two path elements and cleans the result), and
  for every call on the database or on the file system whether that call fails (an I/O
  error, a lost connection) for the given upload id.
\<close>

record env =
  rnd :: "nat \<Rightarrow> nat option"
  sha256hex :: "byte list \<Rightarrow> string"
  zipNewReader :: "byte list \<Rightarrow> zip_file list option"
  unicodeLower :: "string \<Rightarrow> string"
  bcryptGenerate :: "string \<Rightarrow> string option"
  bcryptCompare :: "string \<Rightarrow> string \<Rightarrow> bool"
  createFails :: "string \<Rightarrow> bool"
  getByIDFails :: "string \<Rightarrow> bool"
  incrementFails :: "string \<Rightarrow> bool"
  recDeleteFails :: "string \<Rightarrow> bool"
  getExpiredFails :: bool
  saveFails :: "string \<Rightarrow> bool"
  copyFails :: "string \<Rightarrow> bool"
  getPathFails :: "string \<Rightarrow> bool"
  blobDeleteFails :: "string \<Rightarrow> bool"
  basePath :: string
  pathJoin :: "string \<Rightarrow> string \<Rightarrow> string"

text \<open>
  The two stores: the rows of \<^verbatim>\<open>uploads\<close> in insertion order, and the files of the
  storage directory, keyed by upload id.
\<close>

record world =
  records :: "Upload list"
  blobs :: "string \<rightharpoonup> byte list"

definition hasRow :: "world \<Rightarrow> string \<Rightarrow> bool" where
  "hasRow w i = list_ex (\<lambda>u. ID u = i) (records w)"

text \<open>\<^verbatim>\<open>Repository.Create\<close>: \<^verbatim>\<open>id\<close> is the primary key, so a second row with it is refused.\<close>

definition repoCreate :: "env \<Rightarrow> world \<Rightarrow> Upload \<Rightarrow> db_err option \<times> world" where
  "repoCreate e w upload =
     (if createFails e (ID upload) \<or> hasRow w (ID upload) then (Some DbFailure, w)
      else (None, w\<lparr>records := records w @ [upload]\<rparr>))"

definition repoGetByID :: "env \<Rightarrow> world \<Rightarrow> string \<Rightarrow> db_err + Upload" where
  "repoGetByID e w i =
     (if getByIDFails e i then Inl DbFailure
      else case find (\<lambda>u. ID u = i) (records w) of
             None \<Rightarrow> Inl ErrUploadNotFound
           | Some u \<Rightarrow> Inr u)"

definition repoIncrementDownloadCount :: "env \<Rightarrow> world \<Rightarrow> string \<Rightarrow> db_err option \<times> world" where
  "repoIncrementDownloadCount e w i =
     (if incrementFails e i then (Some DbFailure, w)
      else if \<not> hasRow w i then (Some ErrUploadNotFound, w)
      else (None, w\<lparr>records :=
              map (\<lambda>u. if ID u = i then u\<lparr>DownloadCount := DownloadCount u + 1\<rparr> else u)
                (records w)\<rparr>))"

definition repoDelete :: "env \<Rightarrow> world \<Rightarrow> string \<Rightarrow> db_err option \<times> world" where
  "repoDelete e w i =
     (if recDeleteFails e i then (Some DbFailure, w)
      else if \<not> hasRow w i then (Some ErrUploadNotFound, w)
      else (None, w\<lparr>records := filter (\<lambda>u. ID u \<noteq> i) (records w)\<rparr>))"

text \<open>\<^verbatim>\<open>Repository.GetExpired\<close>: the rows with \<^verbatim>\<open>expires_at < NOW()\<close>.\<close>

definition repoGetExpired :: "env \<Rightarrow> time \<Rightarrow> world \<Rightarrow> db_err + Upload list" where
  "repoGetExpired e now w =
     (if getExpiredFails e then Inl DbFailure
      else Inr (filter (\<lambda>u. ExpiresAt u < now) (records w)))"

text \<open>
  \<^verbatim>\<open>Repository.GetByHash\<close>: the first row with the hash and \<^verbatim>\<open>expires_at > NOW()\<close>;
  a failure of the query is dropped by the caller, so it is \<open>None\<close> as well.
\<close>

definition repoGetByHash :: "time \<Rightarrow> world \<Rightarrow> string \<Rightarrow> Upload option" where
  "repoGetByHash now w h = find (\<lambda>u. FileHash u = h \<and> ExpiresAt u > now) (records w)"

section \<open>Blob store\<close>

text \<open>
  \<^verbatim>\<open>FileSystemStore\<close>. \<^verbatim>\<open>Save\<close> creates (or truncates) the file and writes the bytes,
  returning their count. When \<^verbatim>\<open>os.Create\<close> fails nothing changes; when the copy fails
  the partial file is removed. \<^verbatim>\<open>Delete\<close> treats a missing file as success and leaves
  the file where it is when the removal fails.
\<close>

definition storeSave :: "env \<Rightarrow> world \<Rightarrow> string \<Rightarrow> byte list \<Rightarrow> (err + int) \<times> world" where
  "storeSave e w uploadID data =
     (if saveFails e uploadID then (Inl (ErrInternal ''failed to create file''), w)
      else if copyFails e uploadID then
        (Inl (ErrInternal ''failed to write file''), w\<lparr>blobs := (blobs w)(uploadID := None)\<rparr>)
      else (Inr (int (length data)), w\<lparr>blobs := (blobs w)(uploadID \<mapsto> data)\<rparr>))"

definition filePath :: "env \<Rightarrow> string \<Rightarrow> string" where
  "filePath e uploadID = pathJoin e (basePath e) (uploadID @ ''.zip'')"

definition storeGetPath :: "env \<Rightarrow> world \<Rightarrow> string \<Rightarrow> err + string" where
  "storeGetPath e w uploadID =
     (if getPathFails e uploadID then Inl (ErrInternal ''failed to stat file'')
      else case blobs w uploadID of
             None \<Rightarrow> Inl (ErrInternal ''file not found for upload'')
           | Some _ \<Rightarrow> Inr (filePath e uploadID))"

definition storeDelete :: "env \<Rightarrow> world \<Rightarrow> string \<Rightarrow> err option \<times> world" where
  "storeDelete e w uploadID =
     (if blobDeleteFails e uploadID then (Some (ErrInternal ''failed to delete file''), w)
      else (None, w\<lparr>blobs := (blobs w)(uploadID := None)\<rparr>))"

section \<open>Upload lifecycle service\<close>

record config =
  MaxFileSize :: int
  DefaultExpiry :: int
  BaseURL :: string

record UploadResult =
  res_ID :: string
  res_DownloadURL :: string
  res_DeletionToken :: string
  res_ExpiresAt :: time
  res_Filename :: string
  res_Size :: int

record UploadInfo =
  info_ID :: string
  info_Filename :: string
  info_OriginalSize :: int
  info_CompressedSize :: int
  info_UploadedAt :: time
  info_ExpiresAt :: time
  info_DownloadCount :: int
  info_HasPassword :: bool

text \<open>
  Steps 7 to 9 of \<^verbatim>\<open>ProcessUpload\<close> and its result: store the file, hash the password
  when there is one, build the row and insert it. \<^verbatim>\<open>sanitizeFilename\<close> runs while the row
  is built, after the file is stored; a panic there unwinds the call with the file in place.
\<close>

definition storeAndRecord ::
  "env \<Rightarrow> config \<Rightarrow> time \<Rightarrow> world \<Rightarrow> string \<Rightarrow> string \<Rightarrow> byte list \<Rightarrow> string \<Rightarrow> int \<Rightarrow>
   string \<Rightarrow> string \<Rightarrow> (err + UploadResult) \<times> world" where
  "storeAndRecord e cfg now w uploadID deletionToken zipData fileHash originalSize filename password =
     (case storeSave e w uploadID zipData of
        (Inl _, w1) \<Rightarrow> (Inl (ErrInternal ''failed to store file''), w1)
      | (Inr storedBytes, w1) \<Rightarrow>
          (case (if password \<noteq> [] then map_option Some (bcryptGenerate e password)
                 else Some None) of
             None \<Rightarrow> (Inl (ErrInternal ''failed to hash password''), snd (storeDelete e w1 uploadID))
           | Some passwordHash \<Rightarrow>
               (case sanitizeFilename filename of
                  Inl p \<Rightarrow> (Inl p, w1)
                | Inr fname \<Rightarrow>
                    (let upload = \<lparr>ID = uploadID, Filename = fname, OriginalSize = originalSize,
                                   CompressedSize = storedBytes, FileHash = fileHash,
                                   UploadedAt = now, ExpiresAt = now + DefaultExpiry cfg,
                                   DownloadCount = 0, PasswordHash = passwordHash,
                                   DeletionToken = deletionToken, CreatedAt = now\<rparr>
                     in case repoCreate e w1 upload of
                          (Some _, w2) \<Rightarrow>
                            (Inl (ErrInternal ''failed to create upload record''),
                             snd (storeDelete e w2 uploadID))
                        | (None, w2) \<Rightarrow>
                            (Inr \<lparr>res_ID = uploadID,
                                  res_DownloadURL = BaseURL cfg @ ''/d/'' @ uploadID,
                                  res_DeletionToken = deletionToken,
                                  res_ExpiresAt = ExpiresAt upload,
                                  res_Filename = Filename upload,
                                  res_Size = storedBytes\<rparr>, w2)))))"

text \<open>
  \<^verbatim>\<open>ProcessUpload\<close>. \<open>data\<close> is what the reader yields, \<open>None\<close> when reading fails;
  \<open>declaredSize\<close> is the parameter \<^verbatim>\<open>size\<close>. The two tokens take draws 0..15 and 16..39 of
  the random source. The duplicate lookup of step 6 only writes a log line and has no
  part in the result.
\<close>

definition ProcessUpload ::
  "env \<Rightarrow> config \<Rightarrow> time \<Rightarrow> world \<Rightarrow> string \<Rightarrow> byte list option \<Rightarrow> int \<Rightarrow> string \<Rightarrow>
   (err + UploadResult) \<times> world" where
  "ProcessUpload e cfg now w filename data declaredSize password =
     (if declaredSize > MaxFileSize cfg then (Inl ErrFileTooLarge, w)
      else case generateSecureToken (rnd e) 0 16 of
        Inl _ \<Rightarrow> (Inl (ErrInternal ''failed to generate upload ID''), w)
      | Inr uploadID \<Rightarrow>
      (case generateSecureToken (rnd e) 16 24 of
        Inl _ \<Rightarrow> (Inl (ErrInternal ''failed to generate deletion token''), w)
      | Inr tok \<Rightarrow>
      (let deletionToken = ''del_'' @ tok in
       case data of
         None \<Rightarrow> (Inl (ErrInternal ''failed to read upload data''), w)
       | Some zipData \<Rightarrow>
       (let fileHash = sha256hex e zipData in
        case validateZipMagicBytes zipData of
          Some er \<Rightarrow> (Inl er, w)
        | None \<Rightarrow>
        (case validateAndMeasureZip (zipNewReader e) (unicodeLower e) zipData of
           Inl er \<Rightarrow> (Inl er, w)
         | Inr originalSize \<Rightarrow>
             storeAndRecord e cfg now w uploadID deletionToken zipData fileHash
               originalSize filename password)))))"

text \<open>\<^verbatim>\<open>GetInfo\<close>; \<open>now\<close> is the clock read after the lookup.\<close>

definition GetInfo :: "env \<Rightarrow> time \<Rightarrow> world \<Rightarrow> string \<Rightarrow> err + UploadInfo" where
  "GetInfo e now w i =
     (case repoGetByID e w i of
        Inl ErrUploadNotFound \<Rightarrow> Inl ErrNotFound
      | Inl DbFailure \<Rightarrow> Inl (ErrInternal ''failed to get upload'')
      | Inr upload \<Rightarrow>
          if now > ExpiresAt upload then Inl ErrExpired
          else Inr \<lparr>info_ID = ID upload, info_Filename = Filename upload,
                    info_OriginalSize = OriginalSize upload,
                    info_CompressedSize = CompressedSize upload,
                    info_UploadedAt = UploadedAt upload, info_ExpiresAt = ExpiresAt upload,
                    info_DownloadCount = DownloadCount upload,
                    info_HasPassword = (PasswordHash upload \<noteq> None)\<rparr>)"

text \<open>
  \<^verbatim>\<open>Download\<close> returns the path of the file and the stored filename; the download
  counter is incremented last and a failure to increment is only logged.
\<close>

definition Download ::
  "env \<Rightarrow> time \<Rightarrow> world \<Rightarrow> string \<Rightarrow> string \<Rightarrow> (err + string \<times> string) \<times> world" where
  "Download e now w i password =
     (case repoGetByID e w i of
        Inl ErrUploadNotFound \<Rightarrow> (Inl ErrNotFound, w)
      | Inl DbFailure \<Rightarrow> (Inl (ErrInternal ''failed to get upload''), w)
      | Inr upload \<Rightarrow>
          if now > ExpiresAt upload then (Inl ErrExpired, w)
          else if PasswordHash upload \<noteq> None \<and> password = [] then (Inl ErrPasswordRequired, w)
          else if (case PasswordHash upload of
                     None \<Rightarrow> False
                   | Some h \<Rightarrow> \<not> bcryptCompare e h password) then (Inl ErrInvalidPassword, w)
          else (case storeGetPath e w i of
                  Inl _ \<Rightarrow> (Inl (ErrInternal ''file not found on disk''), w)
                | Inr path \<Rightarrow>
                    (Inr (path, Filename upload), snd (repoIncrementDownloadCount e w i))))"

text \<open>\<^verbatim>\<open>DeleteUpload\<close> reads no clock: there is no expiry check on this path.\<close>

definition DeleteUpload :: "env \<Rightarrow> world \<Rightarrow> string \<Rightarrow> string \<Rightarrow> err option \<times> world" where
  "DeleteUpload e w i token =
     (case repoGetByID e w i of
        Inl ErrUploadNotFound \<Rightarrow> (Some ErrNotFound, w)
      | Inl DbFailure \<Rightarrow> (Some (ErrInternal ''failed to get upload''), w)
      | Inr upload \<Rightarrow>
          if DeletionToken upload \<noteq> token then (Some ErrInvalidToken, w)
          else
            (let w1 = snd (storeDelete e w i) in
             case repoDelete e w1 i of
               (Some _, w2) \<Rightarrow> (Some (ErrInternal ''failed to delete upload record''), w2)
             | (None, w2) \<Rightarrow> (None, w2)))"

section \<open>Reclamation cycle\<close>

text \<open>
  The loop of \<^verbatim>\<open>runCleanup\<close> over the expired rows, with the two counters. A failed
  file deletion counts the row as failed and goes on to the next row (\<^verbatim>\<open>continue\<close>)
  without touching the database.
\<close>

fun cleanupLoop :: "env \<Rightarrow> Upload list \<Rightarrow> world \<Rightarrow> nat \<Rightarrow> nat \<Rightarrow> world \<times> nat \<times> nat" where
  "cleanupLoop e [] w cleaned failed = (w, cleaned, failed)"
| "cleanupLoop e (upload # rest) w cleaned failed =
     (case storeDelete e w (ID upload) of
        (Some _, w1) \<Rightarrow> cleanupLoop e rest w1 cleaned (failed + 1)
      | (None, w1) \<Rightarrow>
          (case repoDelete e w1 (ID upload) of
             (Some _, w2) \<Rightarrow> cleanupLoop e rest w2 cleaned (failed + 1)
           | (None, w2) \<Rightarrow> cleanupLoop e rest w2 (cleaned + 1) failed))"

definition runCleanup :: "env \<Rightarrow> time \<Rightarrow> world \<Rightarrow> world \<times> nat \<times> nat" where
  "runCleanup e now w =
     (case repoGetExpired e now w of
        Inl _ \<Rightarrow> (w, 0, 0)
      | Inr expired \<Rightarrow> if expired = [] then (w, 0, 0) else cleanupLoop e expired w 0 0)"

section \<open>Floating-point arithmetic\<close>

text \<open>
  The limiter keeps its balance in a Go \<^verbatim>\<open>float64\<close>, an IEEE 754 binary64 number, so
  every sum and product in it is rounded. A \<^verbatim>\<open>float64\<close> is modelled by its value: a
  rational number, one of the two infinities, or not-a-number. The sign of a zero is not
  kept: the limiter adds, subtracts, multiplies, compares and divides by the constant
  \<^verbatim>\<open>1e9\<close> only, and none of these gives a different value or a different comparison
  for the two zeros.

  \<open>round64\<close> is rounding to nearest, ties to even, as Go prescribes for every
  \<^verbatim>\<open>float64\<close> operation and conversion. \<open>floorlog2 x\<close> is the exponent of the binade
  of a positive \<open>x\<close> (the largest \<open>k\<close> with \<open>2^k \<le> x\<close>), found from the bit lengths of
  numerator and denominator. The representable numbers around \<open>x\<close> are the multiples of
  \<open>ulp x\<close>, which is \<open>2^(k - 52)\<close> in binade \<open>k\<close> and \<open>2^(-1074)\<close> for the subnormal
  numbers below \<open>2^(-1022)\<close>. A result of magnitude \<open>2^1024\<close> or more overflows to an
  infinity.
\<close>

datatype float64 = Finite rat | PosInf | NegInf | NaN

definition pow2 :: "int \<Rightarrow> rat" where
  "pow2 k = (if 0 \<le> k then 2 ^ nat k else 1 / 2 ^ nat (- k))"

definition floorlog2 :: "rat \<Rightarrow> int" where
  "floorlog2 x =
     (case quotient_of x of (a, b) \<Rightarrow>
        (let k = bitlen a - bitlen b in if pow2 k \<le> x then k else k - 1))"

definition roundEven :: "rat \<Rightarrow> int" where
  "roundEven q =
     (let f = \<lfloor>q\<rfloor>; d = q - of_int f
      in if d < 1 / 2 then f else if 1 / 2 < d then f + 1 else if even f then f else f + 1)"

definition ulp :: "rat \<Rightarrow> rat" where
  "ulp x = pow2 (max (floorlog2 \<bar>x\<bar>) (- 1022) - 52)"

definition round64 :: "rat \<Rightarrow> float64" where
  "round64 x =
     (if x = 0 then Finite 0
      else let u = ulp x; y = of_int (roundEven (x / u)) * u
           in if 1024 \<le> floorlog2 \<bar>y\<bar> then (if 0 < x then PosInf else NegInf) else Finite y)"

text \<open>
  The operations of the language on \<^verbatim>\<open>float64\<close>: negation, \<^verbatim>\<open>+\<close>, \<^verbatim>\<open>-\<close>, \<^verbatim>\<open>*\<close>,
  \<^verbatim>\<open>/\<close>, \<^verbatim>\<open><\<close>, \<^verbatim>\<open>>\<close> and the conversion \<^verbatim>\<open>float64(i)\<close> of an integer. On
  finite operands each is the exact operation followed by \<open>round64\<close>; the other cases
  are those of IEEE 754 (an infinity minus itself and an infinity times zero are
  not-a-number, every comparison with not-a-number is false). In \<open>fdiv\<close> a zero divisor
  counts as the positive zero.
\<close>

definition fneg :: "float64 \<Rightarrow> float64" where
  "fneg a = (case a of Finite x \<Rightarrow> Finite (- x) | PosInf \<Rightarrow> NegInf | NegInf \<Rightarrow> PosInf
             | NaN \<Rightarrow> NaN)"

definition fadd :: "float64 \<Rightarrow> float64 \<Rightarrow> float64" where
  "fadd a b =
     (case (a, b) of
        (Finite x, Finite y) \<Rightarrow> round64 (x + y)
      | (NaN, _) \<Rightarrow> NaN
      | (_, NaN) \<Rightarrow> NaN
      | (PosInf, NegInf) \<Rightarrow> NaN
      | (NegInf, PosInf) \<Rightarrow> NaN
      | (PosInf, _) \<Rightarrow> PosInf
      | (NegInf, _) \<Rightarrow> NegInf
      | (_, PosInf) \<Rightarrow> PosInf
      | (_, NegInf) \<Rightarrow> NegInf)"

definition fsub :: "float64 \<Rightarrow> float64 \<Rightarrow> float64" where
  "fsub a b = fadd a (fneg b)"

definition fsign :: "float64 \<Rightarrow> int" where
  "fsign a = (case a of Finite x \<Rightarrow> (if x = 0 then 0 else if 0 < x then 1 else - 1)
              | PosInf \<Rightarrow> 1 | NegInf \<Rightarrow> - 1 | NaN \<Rightarrow> 0)"

definition fmul :: "float64 \<Rightarrow> float64 \<Rightarrow> float64" where
  "fmul a b =
     (case (a, b) of
        (Finite x, Finite y) \<Rightarrow> round64 (x * y)
      | (NaN, _) \<Rightarrow> NaN
      | (_, NaN) \<Rightarrow> NaN
      | _ \<Rightarrow> (let s = fsign a * fsign b
              in if s = 0 then NaN else if 0 < s then PosInf else NegInf))"

definition fdiv :: "float64 \<Rightarrow> float64 \<Rightarrow> float64" where
  "fdiv a b =
     (case (a, b) of
        (Finite x, Finite y) \<Rightarrow>
          (if y = 0 then (if x = 0 then NaN else if 0 < x then PosInf else NegInf)
           else round64 (x / y))
      | (NaN, _) \<Rightarrow> NaN
      | (_, NaN) \<Rightarrow> NaN
      | (Finite x, _) \<Rightarrow> Finite 0
      | (_, Finite y) \<Rightarrow> (if 0 \<le> fsign a * fsign b then a else fneg a)
      | _ \<Rightarrow> NaN)"

definition flt :: "float64 \<Rightarrow> float64 \<Rightarrow> bool" where
  "flt a b =
     (case (a, b) of
        (Finite x, Finite y) \<Rightarrow> x < y
      | (NaN, _) \<Rightarrow> False
      | (_, NaN) \<Rightarrow> False
      | (NegInf, NegInf) \<Rightarrow> False
      | (NegInf, _) \<Rightarrow> True
      | (PosInf, _) \<Rightarrow> False
      | (Finite x, PosInf) \<Rightarrow> True
      | (Finite x, NegInf) \<Rightarrow> False)"

definition fgt :: "float64 \<Rightarrow> float64 \<Rightarrow> bool" where
  "fgt a b = flt b a"

definition ofInt :: "int \<Rightarrow> float64" where
  "ofInt i = round64 (of_int i)"

text \<open>
  The language lets a compiler fuse \<^verbatim>\<open>x*y + z\<close> into one operation that rounds once
  (the Go compiler does so on some architectures and not on others). \<open>fma\<close> is the fused
  operation: with finite operands it rounds the exact value of \<open>x*y + z\<close>; a product of
  finite factors cannot overflow in it, so an infinite or undefined \<open>z\<close> is the result;
  with an infinite or undefined factor nothing is rounded and the two forms agree.
\<close>

definition fma :: "float64 \<Rightarrow> float64 \<Rightarrow> float64 \<Rightarrow> float64" where
  "fma x y z =
     (case (x, y, z) of
        (Finite a, Finite b, Finite c) \<Rightarrow> round64 (a * b + c)
      | (Finite a, Finite b, _) \<Rightarrow> z
      | _ \<Rightarrow> fadd (fmul x y) z)"

text \<open>
  Integer division and remainder of Go truncate towards zero. \<^verbatim>\<open>Time.Sub\<close> is the
  difference of two instants as a \<^verbatim>\<open>Duration\<close> (an \<^verbatim>\<open>int64\<close> of nanoseconds),
  saturating at the two ends of the range. \<^verbatim>\<open>Duration.Seconds\<close> of the standard library
  is \<^verbatim>\<open>sec := d / Second; nsec := d % Second; return float64(sec) + float64(nsec)/1e9\<close>.
\<close>

definition quo :: "int \<Rightarrow> int \<Rightarrow> int" where
  "quo a b = sgn a * sgn b * (\<bar>a\<bar> div \<bar>b\<bar>)"

definition rem :: "int \<Rightarrow> int \<Rightarrow> int" where
  "rem a b = a - b * quo a b"

definition Sub :: "time \<Rightarrow> time \<Rightarrow> int" where
  "Sub t u =
     (let d = t - u
      in if 9223372036854775807 < d then 9223372036854775807
         else if d < - 9223372036854775808 then - 9223372036854775808 else d)"

definition Seconds :: "int \<Rightarrow> float64" where
  "Seconds d =
     (let sec = quo d 1000000000; nsec = rem d 1000000000
      in fadd (ofInt sec) (fdiv (ofInt nsec) (Finite 1000000000)))"

section \<open>Admission limiter\<close>

text \<open>
  \<^verbatim>\<open>visitor\<close> and \<^verbatim>\<open>RateLimiter\<close> of \<^verbatim>\<open>api/middleware.go\<close>. The mutex makes each call
  of \<^verbatim>\<open>allow\<close> atomic, so a call is a function from the state before to the state after;
  the reading of the clock is an argument. The flag \<open>fused\<close> says whether the compiler
  has fused the multiplication and the addition of \<^verbatim>\<open>v.tokens += elapsed * rl.rate\<close>.
\<close>

record visitor =
  tokens :: float64
  lastCheck :: time

record RateLimiter =
  visitors :: "string \<rightharpoonup> visitor"
  rate :: float64
  burst :: int

definition allow :: "bool \<Rightarrow> RateLimiter \<Rightarrow> string \<Rightarrow> time \<Rightarrow> bool \<times> RateLimiter" where
  "allow fused rl ip now =
     (case visitors rl ip of
        None \<Rightarrow>
          (True, rl\<lparr>visitors := (visitors rl)(ip \<mapsto>
                   \<lparr>tokens = fsub (ofInt (burst rl)) (Finite 1), lastCheck = now\<rparr>)\<rparr>)
      | Some v \<Rightarrow>
          (let elapsed = Seconds (Sub now (lastCheck v));
               v1 = v\<lparr>tokens := (if fused then fma elapsed (rate rl) (tokens v)
                                  else fadd (tokens v) (fmul elapsed (rate rl)))\<rparr>;
               v2 = (if fgt (tokens v1) (ofInt (burst rl)) then v1\<lparr>tokens := ofInt (burst rl)\<rparr>
                     else v1);
               v3 = v2\<lparr>lastCheck := now\<rparr>
           in if flt (tokens v3) (Finite 1) then (False, rl\<lparr>visitors := (visitors rl)(ip \<mapsto> v3)\<rparr>)
              else (True, rl\<lparr>visitors := (visitors rl)(ip \<mapsto>
                            v3\<lparr>tokens := fsub (tokens v3) (Finite 1)\<rparr>)\<rparr>)))"

text \<open>
  The middleware calls \<^verbatim>\<open>allow\<close> once per request; \<open>serve\<close> runs it for a sequence of
  requests of one address, given by their arrival times, and collects the decisions;
  \<open>serveState\<close> gives the state of the limiter after them.
\<close>

fun serve :: "bool \<Rightarrow> RateLimiter \<Rightarrow> string \<Rightarrow> time list \<Rightarrow> bool list" where
  "serve fused rl ip [] = []"
| "serve fused rl ip (t # ts) =
     (case allow fused rl ip t of (ok, rl') \<Rightarrow> ok # serve fused rl' ip ts)"

fun serveState :: "bool \<Rightarrow> RateLimiter \<Rightarrow> string \<Rightarrow> time list \<Rightarrow> RateLimiter" where
  "serveState fused rl ip [] = rl"
| "serveState fused rl ip (t # ts) = serveState fused (snd (allow fused rl ip t)) ip ts"

text \<open>
  The transition of the token bucket as the specification words it, for rate \<open>r\<close> and
  burst \<open>b\<close>: the balance of an entry at time \<open>t\<close> is its stored balance plus
  \<open>elapsed * r\<close>, capped at \<open>b\<close>, where \<open>elapsed\<close> is the number of seconds since the
  stored timestamp. An address without an entry gets one with \<open>b - 1\<close> tokens and is let
  through; otherwise the request is refused and the balance stored when the balance is
  below 1, and let through with one token taken when it is not. In both cases the
  timestamp becomes \<open>t\<close>.
\<close>

definition specBalance :: "bool \<Rightarrow> float64 \<Rightarrow> int \<Rightarrow> visitor \<Rightarrow> time \<Rightarrow> float64" where
  "specBalance fused r b v t =
     (let elapsed = Seconds (Sub t (lastCheck v));
          added = (if fused then fma elapsed r (tokens v) else fadd (tokens v) (fmul elapsed r))
      in if fgt added (ofInt b) then ofInt b else added)"

definition specTransition ::
  "bool \<Rightarrow> float64 \<Rightarrow> int \<Rightarrow> visitor option \<Rightarrow> time \<Rightarrow> bool \<times> visitor" where
  "specTransition fused r b entry t =
     (case entry of
        None \<Rightarrow> (True, \<lparr>tokens = fsub (ofInt b) (Finite 1), lastCheck = t\<rparr>)
      | Some v \<Rightarrow>
          (let balance = specBalance fused r b v t
           in if flt balance (Finite 1) then (False, \<lparr>tokens = balance, lastCheck = t\<rparr>)
              else (True, \<lparr>tokens = fsub balance (Finite 1), lastCheck = t\<rparr>)))"

section \<open>Concrete scenarios\<close>

text \<open>
  Inputs on which the model is run further down: a buffer that starts with the
  local-file-header signature, an environment in which no call fails, the default
  configuration (5 GiB, 7 days), and an empty pair of stores.
\<close>

definition sampleZip :: "byte list" where
  "sampleZip = [0x50, 0x4B, 0x03, 0x04, 0x14, 0x00]"

definition quietEnv :: env where
  "quietEnv =
     \<lparr>rnd = (\<lambda>i. Some i),
      sha256hex = (\<lambda>d. ''digest''),
      zipNewReader = (\<lambda>d. if d = sampleZip
                            then Some [\<lparr>Name = ''readme.txt'', UncompressedSize64 = 11\<rparr>]
                            else None),
      unicodeLower = (\<lambda>s. s),
      bcryptGenerate = (\<lambda>p. Some (''bcrypt:'' @ p)),
      bcryptCompare = (\<lambda>h p. h = ''bcrypt:'' @ p),
      createFails = (\<lambda>i. False),
      getByIDFails = (\<lambda>i. False),
      incrementFails = (\<lambda>i. False),
      recDeleteFails = (\<lambda>i. False),
      getExpiredFails = False,
      saveFails = (\<lambda>i. False),
      copyFails = (\<lambda>i. False),
      getPathFails = (\<lambda>i. False),
      blobDeleteFails = (\<lambda>i. False),
      basePath = ''/srv/beam'',
      pathJoin = (\<lambda>dir file. dir @ ''/'' @ file)\<rparr>"

definition sampleConfig :: config where
  "sampleConfig = \<lparr>MaxFileSize = 5368709120, DefaultExpiry = 604800000000000,
                    BaseURL = ''http://localhost:8080''\<rparr>"

definition emptyWorld :: world where
  "emptyWorld = \<lparr>records = [], blobs = Map.empty\<rparr>"

text \<open>The same environment with a database that refuses every insert.\<close>

definition createFailsEnv :: env where
  "createFailsEnv = quietEnv\<lparr>createFails := (\<lambda>i. True)\<rparr>"

text \<open>
  Three stored uploads, expiring at instants 100, 200 and 900, each with its file, and an
  environment whose disk refuses to delete the file of the first one.
\<close>

definition uploadA :: Upload where
  "uploadA = \<lparr>ID = ''aaaaaaaaaaaaaaaa'', Filename = ''a.zip'', OriginalSize = 11,
               CompressedSize = 6, FileHash = ''digest'', UploadedAt = 0, ExpiresAt = 100,
               DownloadCount = 0, PasswordHash = None,
               DeletionToken = ''del_AAAAAAAAAAAAAAAAAAAAAAAA'', CreatedAt = 0\<rparr>"

definition uploadB :: Upload where
  "uploadB = \<lparr>ID = ''bbbbbbbbbbbbbbbb'', Filename = ''b.zip'', OriginalSize = 11,
               CompressedSize = 6, FileHash = ''digest'', UploadedAt = 0, ExpiresAt = 200,
               DownloadCount = 3, PasswordHash = Some ''bcrypt:secret'',
               DeletionToken = ''del_BBBBBBBBBBBBBBBBBBBBBBBB'', CreatedAt = 0\<rparr>"

definition uploadC :: Upload where
  "uploadC = \<lparr>ID = ''cccccccccccccccc'', Filename = ''c.zip'', OriginalSize = 11,
               CompressedSize = 6, FileHash = ''digest'', UploadedAt = 0, ExpiresAt = 900,
               DownloadCount = 0, PasswordHash = None,
               DeletionToken = ''del_CCCCCCCCCCCCCCCCCCCCCCCC'', CreatedAt = 0\<rparr>"

definition threeUploads :: world where
  "threeUploads =
     \<lparr>records = [uploadA, uploadB, uploadC],
      blobs = [''aaaaaaaaaaaaaaaa'' \<mapsto> sampleZip, ''bbbbbbbbbbbbbbbb'' \<mapsto> sampleZip,
               ''cccccccccccccccc'' \<mapsto> sampleZip]\<rparr>"

definition flakyDiskEnv :: env where
  "flakyDiskEnv = quietEnv\<lparr>blobDeleteFails := (\<lambda>i. i = ''aaaaaaaaaaaaaaaa'')\<rparr>"

text \<open>
  The limiter of the upload route with the default settings, before any request, and the
  same limiter with an entry that has no token left, last checked at the instant 0.
\<close>

definition defaultLimiter :: RateLimiter where
  "defaultLimiter = \<lparr>visitors = Map.empty, rate = Finite 10, burst = 20\<rparr>"

definition drainedLimiter :: RateLimiter where
  "drainedLimiter =
     \<lparr>visitors = [''203.0.113.7'' \<mapsto> \<lparr>tokens = Finite 0, lastCheck = 0\<rparr>],
      rate = Finite 10, burst = 20\<rparr>"

text \<open>
  A central directory with one harmless entry whose zip64 extra field declares an
  uncompressed size of \<open>2^63\<close> bytes, and a file name that is one dot followed by 255
  letters.
\<close>

definition hugeEntry :: zip_file where
  "hugeEntry = \<lparr>Name = ''a.txt'', UncompressedSize64 = 0x8000000000000000\<rparr>"

definition longExtName :: string where
  "longExtName = CHR ''.'' # replicate 255 (CHR ''a'')"

section \<open>Secure token generator: results\<close>

lemma charset_length: "length charset = 62"
  by (simp add: charset_def)

lemma charset_distinct: "distinct charset"
  by (simp add: charset_def)

lemma randInt_less: "randInt src i mx = Some k \<Longrightarrow> 0 < mx \<Longrightarrow> k < mx"
  by (auto simp: randInt_def split: option.splits)

lemma tokenLoop_shape:
  "tokenLoop src pos n acc = Inr s \<Longrightarrow>
     length s = length acc + n \<and> set s \<subseteq> set acc \<union> set charset"
proof (induction n arbitrary: pos acc)
  case 0
  then show ?case by auto
next
  case (Suc n)
  from Suc.prems obtain k where k: "randInt src pos (length charset) = Some k"
    and rest: "tokenLoop src (Suc pos) n (acc @ [charset ! k]) = Inr s"
    by (auto split: option.splits)
  from k have "k < length charset"
    by (rule randInt_less) (simp add: charset_length)
  then have "charset ! k \<in> set charset" by simp
  with Suc.IH [OF rest] show ?case by auto
qed

lemma generateSecureToken_shape:
  "generateSecureToken src pos len = Inr s \<Longrightarrow> int (length s) = len \<and> set s \<subseteq> set charset"
  by (auto simp: generateSecureToken_def split: if_splits dest!: tokenLoop_shape)

lemma quietEnv_uploadID: "generateSecureToken (rnd quietEnv) 0 16 = Inr ''abcdefghijklmnop''"
  by code_simp

section \<open>Magic bytes\<close>

lemma take4_nth:
  "4 \<le> length (xs :: 'a list) \<Longrightarrow> take 4 xs = [xs ! 0, xs ! 1, xs ! 2, xs ! 3]"
proof -
  assume len: "4 \<le> length xs"
  then obtain a b c d rest where "xs = a # b # c # d # rest"
    by (cases xs; cases "tl xs"; cases "tl (tl xs)"; cases "tl (tl (tl xs))") auto
  then show ?thesis by simp
qed

text \<open>
  Claim C7. The magic-byte check succeeds exactly for the buffers of at least four bytes
  whose first four bytes are \<^verbatim>\<open>50 4B 03 04\<close> (local file header) or \<^verbatim>\<open>50 4B 05 06\<close>
  (end of central directory of an empty archive); every other buffer fails with
  \<^verbatim>\<open>ErrInvalidZip\<close>.
\<close>

theorem validateZipMagicBytes_iff:
  "validateZipMagicBytes data =
     (if 4 \<le> length data \<and>
         (take 4 data = [0x50, 0x4B, 0x03, 0x04] \<or> take 4 data = [0x50, 0x4B, 0x05, 0x06])
      then None else Some ErrInvalidZip)"
proof (cases "4 \<le> length data")
  case True
  then show ?thesis
    by (simp add: validateZipMagicBytes_def take4_nth)
next
  case False
  then show ?thesis by (simp add: validateZipMagicBytes_def)
qed

theorem validateZipMagicBytes_iff_witness:
  "validateZipMagicBytes [0x50, 0x4B, 0x05, 0x06] = None \<and>
   validateZipMagicBytes [0x25, 0x50, 0x44, 0x46] = Some ErrInvalidZip \<and>
   validateZipMagicBytes [0x50, 0x4B] = Some ErrInvalidZip"
  using validateZipMagicBytes_iff [of "[0x50, 0x4B, 0x05, 0x06]"]
    validateZipMagicBytes_iff [of "[0x25, 0x50, 0x44, 0x46]"]
    validateZipMagicBytes_iff [of "[0x50, 0x4B]"]
  by simp

section \<open>Upload: results\<close>

lemma storeSave_records: "storeSave e w i d = (r, w') \<Longrightarrow> records w' = records w"
  by (auto simp: storeSave_def split: if_splits)

lemma storeDelete_records: "records (snd (storeDelete e w i)) = records w"
  by (simp add: storeDelete_def)

lemma storeDelete_blobs:
  "\<not> blobDeleteFails e i \<Longrightarrow> blobs (snd (storeDelete e w i)) i = None"
  by (simp add: storeDelete_def)

lemma repoCreate_fail: "repoCreate e w u = (Some x, w') \<Longrightarrow> w' = w"
  by (auto simp: repoCreate_def split: if_splits)

lemma sanitizeFilename_err: "sanitizeFilename f = Inl x \<Longrightarrow> x = Panic"
  by (auto simp: sanitizeFilename_def Let_def split: if_splits)

lemma validateZipMagicBytes_err: "validateZipMagicBytes d = Some x \<Longrightarrow> x = ErrInvalidZip"
  by (auto simp: validateZipMagicBytes_def split: if_splits)

lemma scanEntries_err: "scanEntries ul fs t = Inl x \<Longrightarrow> x = ErrDangerousFile"
  by (induction fs arbitrary: t) (auto simp: Let_def split: if_splits)

lemma validateAndMeasureZip_err:
  "validateAndMeasureZip zr ul d = Inl x \<Longrightarrow> x = ErrInvalidZip \<or> x = ErrDangerousFile"
  by (auto simp: validateAndMeasureZip_def split: option.splits dest: scanEntries_err)

lemma storeAndRecord_err:
  assumes "storeAndRecord e cfg now w uploadID tok zipData h osz filename password = (Inl er, w')"
  shows "records w' = records w"
  using assms
  by (auto simp: storeAndRecord_def Let_def storeDelete_records
      split: prod.splits sum.splits option.splits if_splits
      dest!: repoCreate_fail storeSave_records)

lemma storeAndRecord_compensate:
  assumes "storeAndRecord e cfg now w uploadID tok zipData h osz filename password = (Inl er, w')"
    and "er = ErrInternal ''failed to hash password'' \<or> er = ErrInternal ''failed to create upload record''"
    and "\<not> blobDeleteFails e uploadID"
  shows "blobs w' uploadID = None"
  using assms
  by (auto simp: storeAndRecord_def Let_def storeDelete_blobs
      split: prod.splits sum.splits option.splits if_splits
      dest: sanitizeFilename_err)

lemma storeAndRecord_late:
  assumes "storeAndRecord e cfg now w uploadID tok zipData h osz filename password = (Inl er, w')"
  shows "er \<notin> {ErrFileTooLarge, ErrInvalidZip, ErrDangerousFile}"
  using assms
  by (auto simp: storeAndRecord_def Let_def
      split: prod.splits sum.splits option.splits if_splits
      dest: sanitizeFilename_err)

lemma storeAndRecord_ok:
  assumes "storeAndRecord e cfg now w uploadID tok zipData h osz filename password = (Inr r, w')"
  shows "res_ID r = uploadID \<and> res_DeletionToken r = tok"
  using assms
  by (auto simp: storeAndRecord_def Let_def split: prod.splits sum.splits option.splits if_splits)

lemma ProcessUpload_err_records:
  assumes "ProcessUpload e cfg now w filename data declaredSize password = (Inl er, w')"
  shows "records w' = records w"
  using assms
  by (auto simp: ProcessUpload_def Let_def split: if_splits sum.splits option.splits
      dest: storeAndRecord_err)

lemma ProcessUpload_early:
  assumes "ProcessUpload e cfg now w filename data declaredSize password = (Inl er, w')"
    and "er \<in> {ErrFileTooLarge, ErrInvalidZip, ErrDangerousFile}"
  shows "w' = w"
  using assms
  by (auto simp: ProcessUpload_def Let_def split: if_splits sum.splits option.splits
      dest: storeAndRecord_late)

lemma ProcessUpload_compensate:
  assumes "ProcessUpload e cfg now w filename data declaredSize password = (Inl er, w')"
    and "er = ErrInternal ''failed to hash password'' \<or> er = ErrInternal ''failed to create upload record''"
  shows "\<exists>uploadID. generateSecureToken (rnd e) 0 16 = Inr uploadID \<and>
           (\<not> blobDeleteFails e uploadID \<longrightarrow> blobs w' uploadID = None)"
  using assms
  by (auto simp: ProcessUpload_def Let_def split: if_splits sum.splits option.splits
      dest: storeAndRecord_compensate validateAndMeasureZip_err validateZipMagicBytes_err)

lemma ProcessUpload_ok:
  assumes "ProcessUpload e cfg now w filename data declaredSize password = (Inr r, w')"
  shows "\<exists>uploadID tok. generateSecureToken (rnd e) 0 16 = Inr uploadID \<and>
     generateSecureToken (rnd e) 16 24 = Inr tok \<and> res_ID r = uploadID \<and> res_DeletionToken r = ''del_'' @ tok"
  using assms
  by (auto simp: ProcessUpload_def Let_def split: if_splits sum.splits option.splits
      dest: storeAndRecord_ok)

text \<open>
  Claim C3. When \<^verbatim>\<open>ProcessUpload\<close> returns an error the table of records is what it was
  before the call. The size limit, the magic-byte check and the structural scan fail before
  anything is written: both stores are unchanged. When hashing the password or inserting
  the row fails, the file written under the fresh id is deleted again before the error is
  returned; it is gone whenever that deletion itself succeeds.
\<close>

theorem ProcessUpload_error_creates_no_record:
  assumes "ProcessUpload e cfg now w filename data declaredSize password = (Inl er, w')"
  shows "records w' = records w \<and>
         (er \<in> {ErrFileTooLarge, ErrInvalidZip, ErrDangerousFile} \<longrightarrow> w' = w) \<and>
         (er = ErrInternal ''failed to hash password'' \<or>
          er = ErrInternal ''failed to create upload record'' \<longrightarrow>
            (\<exists>uploadID. generateSecureToken (rnd e) 0 16 = Inr uploadID \<and>
               (\<not> blobDeleteFails e uploadID \<longrightarrow> blobs w' uploadID = None)))"
  using ProcessUpload_err_records [OF assms] ProcessUpload_early [OF assms]
    ProcessUpload_compensate [OF assms]
  by blast

lemma createFails_run:
  "fst (ProcessUpload createFailsEnv sampleConfig 1000 emptyWorld ''a.zip'' (Some sampleZip) 6 []) =
     Inl (ErrInternal ''failed to create upload record'')"
  by code_simp

theorem ProcessUpload_error_creates_no_record_witness:
  "fst (ProcessUpload createFailsEnv sampleConfig 1000 emptyWorld ''a.zip'' (Some sampleZip) 6 []) =
     Inl (ErrInternal ''failed to create upload record'') \<and>
   records (snd (ProcessUpload createFailsEnv sampleConfig 1000 emptyWorld ''a.zip''
     (Some sampleZip) 6 [])) = [] \<and>
   blobs (snd (ProcessUpload createFailsEnv sampleConfig 1000 emptyWorld ''a.zip''
     (Some sampleZip) 6 [])) ''abcdefghijklmnop'' = None \<and>
   ProcessUpload quietEnv sampleConfig 1000 threeUploads ''a.zip'' (Some sampleZip)
     6000000000 [] = (Inl ErrFileTooLarge, threeUploads)"
proof -
  let ?run = "ProcessUpload createFailsEnv sampleConfig 1000 emptyWorld ''a.zip'' (Some sampleZip) 6 []"
  have run: "?run = (Inl (ErrInternal ''failed to create upload record''), snd ?run)"
    using createFails_run by (metis prod.collapse)
  have id: "generateSecureToken (rnd createFailsEnv) 0 16 = Inr ''abcdefghijklmnop''"
    by code_simp
  have nofail: "\<not> blobDeleteFails createFailsEnv ''abcdefghijklmnop''"
    by (simp add: createFailsEnv_def quietEnv_def)
  have big: "ProcessUpload quietEnv sampleConfig 1000 threeUploads ''a.zip'' (Some sampleZip)
      6000000000 [] = (Inl ErrFileTooLarge, threeUploads)"
    by (simp add: ProcessUpload_def sampleConfig_def)
  from ProcessUpload_error_creates_no_record [OF run] id nofail createFails_run
    ProcessUpload_error_creates_no_record [OF big] big
  show ?thesis by (simp add: emptyWorld_def)
qed

text \<open>
  Claim C8. A successful \<^verbatim>\<open>generateSecureToken(length)\<close> returns exactly \<open>length\<close>
  characters, each from the alphabet of 62 distinct characters; on a successful
  \<^verbatim>\<open>ProcessUpload\<close> the id has 16 characters of that alphabet and the deletion token
  is \<^verbatim>\<open>del_\<close> followed by 24 characters of that alphabet.
\<close>

theorem token_shape:
  "(generateSecureToken src pos len = Inr s \<longrightarrow>
      int (length s) = len \<and> set s \<subseteq> set charset) \<and>
   (fst (ProcessUpload e cfg now w filename data declaredSize password) = Inr r \<longrightarrow>
      length (res_ID r) = 16 \<and> set (res_ID r) \<subseteq> set charset \<and>
      (\<exists>t. res_DeletionToken r = ''del_'' @ t \<and> length t = 24 \<and> set t \<subseteq> set charset)) \<and>
   length charset = 62 \<and> distinct charset"
proof (intro conjI impI)
  assume "generateSecureToken src pos len = Inr s"
  then show "int (length s) = len" "set s \<subseteq> set charset"
    by (simp_all add: generateSecureToken_shape)
next
  assume ok: "fst (ProcessUpload e cfg now w filename data declaredSize password) = Inr r"
  then have "ProcessUpload e cfg now w filename data declaredSize password =
      (Inr r, snd (ProcessUpload e cfg now w filename data declaredSize password))"
    by (metis prod.collapse)
  from ProcessUpload_ok [OF this] obtain uploadID tok where
    g1: "generateSecureToken (rnd e) 0 16 = Inr uploadID" and
    g2: "generateSecureToken (rnd e) 16 24 = Inr tok" and
    r: "res_ID r = uploadID" "res_DeletionToken r = ''del_'' @ tok"
    by blast
  from generateSecureToken_shape [OF g1] r show "length (res_ID r) = 16" "set (res_ID r) \<subseteq> set charset"
    by simp_all
  from generateSecureToken_shape [OF g2] r
  show "\<exists>t. res_DeletionToken r = ''del_'' @ t \<and> length t = 24 \<and> set t \<subseteq> set charset"
    by auto
next
  show "length charset = 62" by (rule charset_length)
  show "distinct charset" by (rule charset_distinct)
qed

lemma quiet_run:
  "fst (ProcessUpload quietEnv sampleConfig 1000 emptyWorld ''a.zip'' (Some sampleZip) 6 []) =
     Inr \<lparr>res_ID = ''abcdefghijklmnop'',
          res_DownloadURL = ''http://localhost:8080/d/abcdefghijklmnop'',
          res_DeletionToken = ''del_qrstuvwxyzABCDEFGHIJKLMN'',
          res_ExpiresAt = 604800000001000,
          res_Filename = ''a.zip'',
          res_Size = 6\<rparr>"
  by code_simp

theorem token_shape_witness:
  "generateSecureToken (\<lambda>i. Some (i + 100)) 0 8 = Inr ''MNOPQRST'' \<and>
   int (length ''MNOPQRST'') = 8 \<and> set ''MNOPQRST'' \<subseteq> set charset \<and>
   fst (ProcessUpload quietEnv sampleConfig 1000 emptyWorld ''a.zip'' (Some sampleZip) 6 []) =
     Inr \<lparr>res_ID = ''abcdefghijklmnop'',
          res_DownloadURL = ''http://localhost:8080/d/abcdefghijklmnop'',
          res_DeletionToken = ''del_qrstuvwxyzABCDEFGHIJKLMN'',
          res_ExpiresAt = 604800000001000,
          res_Filename = ''a.zip'',
          res_Size = 6\<rparr> \<and>
   length ''abcdefghijklmnop'' = 16 \<and> set ''abcdefghijklmnop'' \<subseteq> set charset \<and>
   (\<exists>t. ''del_qrstuvwxyzABCDEFGHIJKLMN'' = ''del_'' @ t \<and> length t = 24 \<and> set t \<subseteq> set charset)"
proof -
  have g: "generateSecureToken (\<lambda>i. Some (i + 100)) 0 8 = Inr ''MNOPQRST''"
    by code_simp
  from token_shape [of "\<lambda>i. Some (i + 100)" 0 8 "''MNOPQRST''" quietEnv sampleConfig 1000
      emptyWorld "''a.zip''" "Some sampleZip" 6 "[]"
      "\<lparr>res_ID = ''abcdefghijklmnop'',
          res_DownloadURL = ''http://localhost:8080/d/abcdefghijklmnop'',
          res_DeletionToken = ''del_qrstuvwxyzABCDEFGHIJKLMN'',
          res_ExpiresAt = 604800000001000,
          res_Filename = ''a.zip'',
          res_Size = 6\<rparr>"] g quiet_run
  show ?thesis by simp
qed

section \<open>Record store: results\<close>

lemma filter_absent: "\<not> list_ex (\<lambda>u. ID u = i) xs \<Longrightarrow> filter (\<lambda>u. ID u \<noteq> i) xs = xs"
  by (induction xs) auto

lemma find_filter_other: "find (\<lambda>u. ID u = i) (filter (\<lambda>u. ID u \<noteq> i) xs) = None"
  by (induction xs) auto

lemma repoDelete_records:
  "records (snd (repoDelete e w i)) =
     (if recDeleteFails e i then records w else filter (\<lambda>u. ID u \<noteq> i) (records w))"
  by (simp add: repoDelete_def hasRow_def filter_absent)

lemma repoGetByID_found:
  assumes "repoGetByID e w i = Inr upload"
  shows "\<not> getByIDFails e i" and "find (\<lambda>u. ID u = i) (records w) = Some upload"
    and "hasRow w i" and "upload \<in> set (records w)" and "ID upload = i"
proof -
  from assms show nf: "\<not> getByIDFails e i"
    by (auto simp: repoGetByID_def split: if_splits)
  with assms show f: "find (\<lambda>u. ID u = i) (records w) = Some upload"
    by (auto simp: repoGetByID_def split: option.splits)
  then obtain k where k: "k < length (records w)" "records w ! k = upload" "ID (records w ! k) = i"
    by (auto simp: find_Some_iff)
  then show "upload \<in> set (records w)" "ID upload = i" by auto
  then show "hasRow w i" by (auto simp: hasRow_def list_ex_iff)
qed

section \<open>Reclamation: results\<close>

lemma cleanupLoop_Cons:
  "cleanupLoop e (u # us) w c f =
     cleanupLoop e us
        (if blobDeleteFails e (ID u) then w
         else snd (repoDelete e (snd (storeDelete e w (ID u))) (ID u)))
        (if \<not> blobDeleteFails e (ID u) \<and> \<not> recDeleteFails e (ID u) \<and> hasRow w (ID u)
         then c + 1 else c)
        (if \<not> blobDeleteFails e (ID u) \<and> \<not> recDeleteFails e (ID u) \<and> hasRow w (ID u)
         then f else f + 1)"
  by (simp add: storeDelete_def repoDelete_def hasRow_def)

lemma cleanupLoop_records:
  "records (fst (cleanupLoop e us w c f)) =
     filter (\<lambda>u. \<not> (\<exists>x \<in> set us. ID x = ID u \<and> \<not> blobDeleteFails e (ID x) \<and>
                       \<not> recDeleteFails e (ID x))) (records w)"
proof (induction us arbitrary: w c f)
  case Nil
  show ?case by simp
next
  case (Cons u us)
  have step: "records (if blobDeleteFails e (ID u) then w
         else snd (repoDelete e (snd (storeDelete e w (ID u))) (ID u))) =
     (if blobDeleteFails e (ID u) \<or> recDeleteFails e (ID u) then records w
      else filter (\<lambda>x. ID x \<noteq> ID u) (records w))"
    by (simp add: repoDelete_records storeDelete_def)
  show ?case
    unfolding cleanupLoop_Cons Cons.IH step
    by (auto intro!: filter_cong)
qed

lemma cleanupLoop_blobs:
  "blobs (fst (cleanupLoop e us w c f)) =
     (\<lambda>i. if i \<in> ID ` set us \<and> \<not> blobDeleteFails e i then None else blobs w i)"
proof (induction us arbitrary: w c f)
  case Nil
  show ?case by simp
next
  case (Cons u us)
  have step: "blobs (if blobDeleteFails e (ID u) then w
         else snd (repoDelete e (snd (storeDelete e w (ID u))) (ID u))) =
     (if blobDeleteFails e (ID u) then blobs w else (blobs w)(ID u := None))"
    by (simp add: repoDelete_def storeDelete_def)
  show ?case
    unfolding cleanupLoop_Cons Cons.IH step
    by (auto simp: fun_eq_iff)
qed

lemma hasRow_after_step:
  assumes "hasRow w i" and "i \<noteq> ID u"
  shows "hasRow (if blobDeleteFails e (ID u) then w
         else snd (repoDelete e (snd (storeDelete e w (ID u))) (ID u))) i"
  using assms
  by (auto simp: hasRow_def repoDelete_records storeDelete_records list_ex_iff)

text \<open>
  The two counters, when the rows to process have distinct ids and are all in the table:
  each row is counted once, as cleaned when both of its deletions succeed and as failed
  otherwise.
\<close>

lemma cleanupLoop_counters:
  assumes "distinct (map ID us)" and "\<forall>u \<in> set us. hasRow w (ID u)"
  shows "snd (cleanupLoop e us w c f) =
           (c + length (filter (\<lambda>u. \<not> blobDeleteFails e (ID u) \<and> \<not> recDeleteFails e (ID u)) us),
            f + length (filter (\<lambda>u. blobDeleteFails e (ID u) \<or> recDeleteFails e (ID u)) us))"
  using assms
proof (induction us arbitrary: w c f)
  case Nil
  show ?case by simp
next
  case (Cons u us)
  let ?w = "if blobDeleteFails e (ID u) then w
         else snd (repoDelete e (snd (storeDelete e w (ID u))) (ID u))"
  have d: "distinct (map ID us)" using Cons.prems(1) by simp
  have rows: "\<forall>x \<in> set us. hasRow ?w (ID x)"
  proof
    fix x assume x: "x \<in> set us"
    then have "ID x \<noteq> ID u" using Cons.prems(1)
      by (metis distinct.simps(2) image_eqI list.simps(9) list.set_map)
    moreover have "hasRow w (ID x)" using Cons.prems(2) x by simp
    ultimately show "hasRow ?w (ID x)" by (rule hasRow_after_step [rotated])
  qed
  have here: "hasRow w (ID u)" using Cons.prems(2) by simp
  show ?case
    unfolding cleanupLoop_Cons Cons.IH [OF d rows]
    using here by simp
qed

lemma distinct_ID_eq:
  "distinct (map ID xs) \<Longrightarrow> x \<in> set xs \<Longrightarrow> y \<in> set xs \<Longrightarrow> ID x = ID y \<Longrightarrow> x = y"
  by (auto simp: distinct_map dest: inj_onD)

text \<open>
  Claim C1, as the code has it. The ids of the rows are distinct (\<^verbatim>\<open>id\<close> is the primary
  key) and the query for the expired rows succeeds. In a reclamation cycle every expired
  record is then handled on its own: its row is removed exactly when the deletion of its
  file and the deletion of its row both succeed, whatever happens to the other records;
  the rows that are not expired stay. A record whose file cannot be deleted keeps its row (the loop goes on to
  the next record without touching the database) and its file, and is counted as failed.
  The files of the other expired records are deleted. The counter of cleaned records ends
  at the number of expired records whose two deletions succeed, the counter of failures at
  the number of expired records of which a deletion fails: no failure ends the cycle early.
\<close>

theorem runCleanup_per_record:
  assumes "\<not> getExpiredFails e" and "distinct (map ID (records w))"
  shows "records (fst (runCleanup e now w)) =
           filter (\<lambda>u. \<not> (ExpiresAt u < now \<and> \<not> blobDeleteFails e (ID u) \<and>
                            \<not> recDeleteFails e (ID u))) (records w) \<and>
         blobs (fst (runCleanup e now w)) =
           (\<lambda>i. if (\<exists>u \<in> set (records w). ID u = i \<and> ExpiresAt u < now) \<and>
                    \<not> blobDeleteFails e i then None else blobs w i) \<and>
         fst (snd (runCleanup e now w)) =
           length (filter (\<lambda>u. ExpiresAt u < now \<and> \<not> blobDeleteFails e (ID u) \<and>
                                \<not> recDeleteFails e (ID u)) (records w)) \<and>
         snd (snd (runCleanup e now w)) =
           length (filter (\<lambda>u. ExpiresAt u < now \<and>
                                (blobDeleteFails e (ID u) \<or> recDeleteFails e (ID u))) (records w))"
proof -
  let ?expired = "filter (\<lambda>u. ExpiresAt u < now) (records w)"
  have run: "runCleanup e now w = (if ?expired = [] then (w, 0, 0) else cleanupLoop e ?expired w 0 0)"
    using assms(1) by (simp add: runCleanup_def repoGetExpired_def)
  have loop: "runCleanup e now w = cleanupLoop e ?expired w 0 0"
    unfolding run by simp
  have same: "(\<exists>x \<in> set ?expired. ID x = ID u \<and> \<not> blobDeleteFails e (ID x) \<and>
                  \<not> recDeleteFails e (ID x)) \<longleftrightarrow>
              (ExpiresAt u < now \<and> \<not> blobDeleteFails e (ID u) \<and> \<not> recDeleteFails e (ID u))"
    if "u \<in> set (records w)" for u
    using that distinct_ID_eq [OF assms(2)] by auto
  have r: "records (fst (runCleanup e now w)) =
           filter (\<lambda>u. \<not> (ExpiresAt u < now \<and> \<not> blobDeleteFails e (ID u) \<and>
                            \<not> recDeleteFails e (ID u))) (records w)"
    unfolding loop cleanupLoop_records
  proof (rule filter_cong [OF refl])
    fix u assume "u \<in> set (records w)"
    from same [OF this]
    show "(\<not> (\<exists>x \<in> set ?expired. ID x = ID u \<and> \<not> blobDeleteFails e (ID x) \<and>
                  \<not> recDeleteFails e (ID x))) =
          (\<not> (ExpiresAt u < now \<and> \<not> blobDeleteFails e (ID u) \<and> \<not> recDeleteFails e (ID u)))"
      by (rule arg_cong)
  qed
  have b: "blobs (fst (runCleanup e now w)) =
           (\<lambda>i. if (\<exists>u \<in> set (records w). ID u = i \<and> ExpiresAt u < now) \<and>
                    \<not> blobDeleteFails e i then None else blobs w i)"
    unfolding loop cleanupLoop_blobs by (auto simp: fun_eq_iff)
  have d: "distinct (map ID ?expired)"
    using assms(2) by (rule distinct_map_filter)
  have rows: "\<forall>u \<in> set ?expired. hasRow w (ID u)"
    by (auto simp: hasRow_def list_ex_iff)
  have n: "snd (runCleanup e now w) =
      (length (filter (\<lambda>u. ExpiresAt u < now \<and> \<not> blobDeleteFails e (ID u) \<and>
                                \<not> recDeleteFails e (ID u)) (records w)),
       length (filter (\<lambda>u. ExpiresAt u < now \<and>
                                (blobDeleteFails e (ID u) \<or> recDeleteFails e (ID u))) (records w)))"
    unfolding loop cleanupLoop_counters [OF d rows] by (simp add: conj_commute)
  have c: "fst (snd (runCleanup e now w)) =
           length (filter (\<lambda>u. ExpiresAt u < now \<and> \<not> blobDeleteFails e (ID u) \<and>
                                \<not> recDeleteFails e (ID u)) (records w))"
    unfolding n by simp
  have f: "snd (snd (runCleanup e now w)) =
           length (filter (\<lambda>u. ExpiresAt u < now \<and>
                                (blobDeleteFails e (ID u) \<or> recDeleteFails e (ID u))) (records w))"
    unfolding n by simp
  from r b c f show ?thesis by blast
qed

theorem runCleanup_per_record_witness:
  "\<not> getExpiredFails flakyDiskEnv \<and> distinct (map ID (records threeUploads)) \<and>
   records (fst (runCleanup flakyDiskEnv 500 threeUploads)) = [uploadA, uploadC] \<and>
   blobs (fst (runCleanup flakyDiskEnv 500 threeUploads)) ''aaaaaaaaaaaaaaaa'' = Some sampleZip \<and>
   blobs (fst (runCleanup flakyDiskEnv 500 threeUploads)) ''bbbbbbbbbbbbbbbb'' = None \<and>
   fst (snd (runCleanup flakyDiskEnv 500 threeUploads)) = 1 \<and>
   snd (snd (runCleanup flakyDiskEnv 500 threeUploads)) = 1"
proof -
  have h1: "\<not> getExpiredFails flakyDiskEnv"
    by (simp add: flakyDiskEnv_def quietEnv_def)
  have h2: "distinct (map ID (records threeUploads))"
    by (simp add: threeUploads_def uploadA_def uploadB_def uploadC_def)
  from runCleanup_per_record [OF h1 h2, of 500] h1 h2
  show ?thesis
    by (simp add: threeUploads_def uploadA_def uploadB_def uploadC_def flakyDiskEnv_def
        quietEnv_def)
qed

text \<open>
  The claim as written says that the row of a record whose file deletion fails is removed
  all the same. It is not: after the cycle the row of \<open>uploadA\<close> is still found.
\<close>

theorem runCleanup_blob_failure_counterexample:
  "uploadA \<in> set (records threeUploads) \<and> ExpiresAt uploadA < 500 \<and>
   blobDeleteFails flakyDiskEnv (ID uploadA) \<and>
   repoGetByID flakyDiskEnv (fst (runCleanup flakyDiskEnv 500 threeUploads)) (ID uploadA) =
     Inr uploadA"
  by code_simp

section \<open>Expiry and deletion: results\<close>

text \<open>
  Claim C2, as the code has it. For a record that the lookup finds, \<^verbatim>\<open>GetInfo\<close> and
  \<^verbatim>\<open>Download\<close> return \<^verbatim>\<open>ErrExpired\<close> exactly when the clock is strictly after
  \<^verbatim>\<open>ExpiresAt\<close> (\<^verbatim>\<open>time.Now().After(upload.ExpiresAt)\<close>); otherwise they go on past
  the expiry check, and \<^verbatim>\<open>GetInfo\<close> then returns the metadata.
\<close>

theorem expiry_check_is_strict:
  assumes "repoGetByID e w i = Inr upload"
  shows "(GetInfo e now w i = Inl ErrExpired \<longleftrightarrow> ExpiresAt upload < now) \<and>
         (fst (Download e now w i password) = Inl ErrExpired \<longleftrightarrow> ExpiresAt upload < now) \<and>
         (\<not> ExpiresAt upload < now \<longrightarrow> (\<exists>info. GetInfo e now w i = Inr info))"
proof (intro conjI)
  show "GetInfo e now w i = Inl ErrExpired \<longleftrightarrow> ExpiresAt upload < now"
    using assms by (simp add: GetInfo_def)
  show "fst (Download e now w i password) = Inl ErrExpired \<longleftrightarrow> ExpiresAt upload < now"
    using assms by (auto simp: Download_def split: sum.splits option.splits)
  show "\<not> ExpiresAt upload < now \<longrightarrow> (\<exists>info. GetInfo e now w i = Inr info)"
    using assms by (simp add: GetInfo_def)
qed

lemma lookup_uploadC: "repoGetByID quietEnv threeUploads (ID uploadC) = Inr uploadC"
  by (simp add: repoGetByID_def quietEnv_def threeUploads_def uploadA_def uploadB_def
      uploadC_def)

theorem expiry_check_is_strict_witness:
  "repoGetByID quietEnv threeUploads (ID uploadC) = Inr uploadC \<and>
   GetInfo quietEnv 901 threeUploads (ID uploadC) = Inl ErrExpired \<and>
   fst (Download quietEnv 901 threeUploads (ID uploadC) []) = Inl ErrExpired \<and>
   GetInfo quietEnv 900 threeUploads (ID uploadC) \<noteq> Inl ErrExpired \<and>
   fst (Download quietEnv 900 threeUploads (ID uploadC) []) \<noteq> Inl ErrExpired"
  using expiry_check_is_strict [OF lookup_uploadC, of 901 "[]"]
    expiry_check_is_strict [OF lookup_uploadC, of 900 "[]"] lookup_uploadC
  by (simp add: uploadC_def)

text \<open>
  The claim as written puts the instant \<open>now = expiresAt\<close> on the expired side. At that
  instant the record is still served: \<^verbatim>\<open>GetInfo\<close> returns its metadata and
  \<^verbatim>\<open>Download\<close> its file.
\<close>

theorem expiry_boundary_counterexample:
  "repoGetByID quietEnv threeUploads (ID uploadC) = Inr uploadC \<and>
   ExpiresAt uploadC \<le> 900 \<and>
   GetInfo quietEnv 900 threeUploads (ID uploadC) =
     Inr \<lparr>info_ID = ''cccccccccccccccc'', info_Filename = ''c.zip'', info_OriginalSize = 11,
          info_CompressedSize = 6, info_UploadedAt = 0, info_ExpiresAt = 900,
          info_DownloadCount = 0, info_HasPassword = False\<rparr> \<and>
   fst (Download quietEnv 900 threeUploads (ID uploadC) []) =
     Inr (''/srv/beam/cccccccccccccccc.zip'', ''c.zip'')"
  by code_simp

text \<open>
  Claim C4. For a record that the lookup finds, \<^verbatim>\<open>DeleteUpload\<close> with a token other than
  the stored one returns \<^verbatim>\<open>ErrInvalidToken\<close> and leaves both stores as they were. With
  the stored token the row is taken out of the table whether or not the file could be
  deleted: what happens to the table depends on the database alone, and when the database
  carries out the delete the call succeeds and the record is not found afterwards.
\<close>

theorem DeleteUpload_token_check:
  assumes "repoGetByID e w i = Inr upload"
  shows "(token \<noteq> DeletionToken upload \<longrightarrow>
            DeleteUpload e w i token = (Some ErrInvalidToken, w)) \<and>
         (token = DeletionToken upload \<longrightarrow>
            records (snd (DeleteUpload e w i token)) =
              (if recDeleteFails e i then records w
               else filter (\<lambda>u. ID u \<noteq> i) (records w)) \<and>
            (\<not> recDeleteFails e i \<longrightarrow>
               fst (DeleteUpload e w i token) = None \<and>
               repoGetByID e (snd (DeleteUpload e w i token)) i = Inl ErrUploadNotFound))"
proof (intro conjI impI)
  assume "token \<noteq> DeletionToken upload"
  then show "DeleteUpload e w i token = (Some ErrInvalidToken, w)"
    using assms by (simp add: DeleteUpload_def)
next
  assume tok: "token = DeletionToken upload"
  define w1 where "w1 = snd (storeDelete e w i)"
  have r1: "records w1 = records w" by (simp add: w1_def storeDelete_records)
  have run: "DeleteUpload e w i token =
      (case repoDelete e w1 i of
         (Some x, w2) \<Rightarrow> (Some (ErrInternal ''failed to delete upload record''), w2)
       | (None, w2) \<Rightarrow> (None, w2))"
    using assms tok by (simp add: DeleteUpload_def w1_def)
  have snd_run: "snd (DeleteUpload e w i token) = snd (repoDelete e w1 i)"
    unfolding run by (simp split: prod.splits option.splits)
  show recs: "records (snd (DeleteUpload e w i token)) =
      (if recDeleteFails e i then records w else filter (\<lambda>u. ID u \<noteq> i) (records w))"
    unfolding snd_run by (simp add: repoDelete_records r1)
  assume ok: "\<not> recDeleteFails e i"
  have row: "hasRow w1 i"
    using repoGetByID_found(3) [OF assms] r1 by (simp add: hasRow_def)
  show "fst (DeleteUpload e w i token) = None"
    unfolding run using ok row by (simp add: repoDelete_def)
  show "repoGetByID e (snd (DeleteUpload e w i token)) i = Inl ErrUploadNotFound"
    using repoGetByID_found(1) [OF assms] ok recs
    by (simp add: repoGetByID_def find_filter_other)
qed

lemma lookup_uploadA: "repoGetByID flakyDiskEnv threeUploads (ID uploadA) = Inr uploadA"
  by (simp add: repoGetByID_def flakyDiskEnv_def quietEnv_def threeUploads_def uploadA_def)

theorem DeleteUpload_token_check_witness:
  "repoGetByID flakyDiskEnv threeUploads (ID uploadA) = Inr uploadA \<and>
   blobDeleteFails flakyDiskEnv (ID uploadA) \<and>
   DeleteUpload flakyDiskEnv threeUploads (ID uploadA) ''del_guess'' =
     (Some ErrInvalidToken, threeUploads) \<and>
   fst (DeleteUpload flakyDiskEnv threeUploads (ID uploadA) (DeletionToken uploadA)) = None \<and>
   records (snd (DeleteUpload flakyDiskEnv threeUploads (ID uploadA) (DeletionToken uploadA))) =
     [uploadB, uploadC] \<and>
   repoGetByID flakyDiskEnv
     (snd (DeleteUpload flakyDiskEnv threeUploads (ID uploadA) (DeletionToken uploadA)))
     (ID uploadA) = Inl ErrUploadNotFound"
proof -
  have nf: "\<not> recDeleteFails flakyDiskEnv (ID uploadA)"
    by (simp add: flakyDiskEnv_def quietEnv_def)
  have bf: "blobDeleteFails flakyDiskEnv (ID uploadA)"
    by (simp add: flakyDiskEnv_def uploadA_def)
  have ne: "''del_guess'' \<noteq> DeletionToken uploadA"
    by (simp add: uploadA_def)
  have recs: "filter (\<lambda>u. ID u \<noteq> ID uploadA) (records threeUploads) = [uploadB, uploadC]"
    by (simp add: threeUploads_def uploadA_def uploadB_def uploadC_def)
  from DeleteUpload_token_check [OF lookup_uploadA, of "''del_guess''"]
    DeleteUpload_token_check [OF lookup_uploadA, of "DeletionToken uploadA"]
    lookup_uploadA nf bf ne recs
  show ?thesis by simp
qed

text \<open>
  Claim C10. \<^verbatim>\<open>DeleteUpload\<close> has no expiry check. For a record that is still in the
  table with \<^verbatim>\<open>ExpiresAt\<close> in the past, \<^verbatim>\<open>GetInfo\<close> and \<^verbatim>\<open>Download\<close> return
  \<^verbatim>\<open>ErrExpired\<close>, while \<^verbatim>\<open>DeleteUpload\<close> with the right token succeeds and removes
  the record (given that the database carries out the delete).
\<close>

theorem DeleteUpload_ignores_expiry:
  assumes "repoGetByID e w i = Inr upload" and "ExpiresAt upload < now"
    and "\<not> recDeleteFails e i"
  shows "GetInfo e now w i = Inl ErrExpired \<and>
         fst (Download e now w i password) = Inl ErrExpired \<and>
         fst (DeleteUpload e w i (DeletionToken upload)) = None \<and>
         repoGetByID e (snd (DeleteUpload e w i (DeletionToken upload))) i =
           Inl ErrUploadNotFound"
proof (intro conjI)
  show "GetInfo e now w i = Inl ErrExpired"
    using assms(1,2) by (simp add: GetInfo_def)
  show "fst (Download e now w i password) = Inl ErrExpired"
    using assms(1,2) by (simp add: Download_def)
  define w1 where "w1 = snd (storeDelete e w i)"
  have r1: "records w1 = records w" by (simp add: w1_def storeDelete_records)
  have row: "hasRow w1 i"
    using repoGetByID_found(3) [OF assms(1)] r1 by (simp add: hasRow_def)
  have run: "DeleteUpload e w i (DeletionToken upload) =
      (None, w1\<lparr>records := filter (\<lambda>u. ID u \<noteq> i) (records w1)\<rparr>)"
    using assms(1,3) row by (simp add: DeleteUpload_def w1_def repoDelete_def Let_def)
  show "fst (DeleteUpload e w i (DeletionToken upload)) = None"
    unfolding run by simp
  show "repoGetByID e (snd (DeleteUpload e w i (DeletionToken upload))) i = Inl ErrUploadNotFound"
    unfolding run using repoGetByID_found(1) [OF assms(1)]
    by (simp add: repoGetByID_def find_filter_other)
qed

lemma lookup_uploadB: "repoGetByID quietEnv threeUploads (ID uploadB) = Inr uploadB"
  by (simp add: repoGetByID_def quietEnv_def threeUploads_def uploadA_def uploadB_def)

theorem DeleteUpload_ignores_expiry_witness:
  "repoGetByID quietEnv threeUploads (ID uploadB) = Inr uploadB \<and>
   ExpiresAt uploadB < 500 \<and> \<not> recDeleteFails quietEnv (ID uploadB) \<and>
   GetInfo quietEnv 500 threeUploads (ID uploadB) = Inl ErrExpired \<and>
   fst (Download quietEnv 500 threeUploads (ID uploadB) ''secret'') = Inl ErrExpired \<and>
   fst (DeleteUpload quietEnv threeUploads (ID uploadB) (DeletionToken uploadB)) = None \<and>
   repoGetByID quietEnv
     (snd (DeleteUpload quietEnv threeUploads (ID uploadB) (DeletionToken uploadB)))
     (ID uploadB) = Inl ErrUploadNotFound"
proof -
  have h2: "ExpiresAt uploadB < 500" by (simp add: uploadB_def)
  have h3: "\<not> recDeleteFails quietEnv (ID uploadB)" by (simp add: quietEnv_def)
  from DeleteUpload_ignores_expiry [OF lookup_uploadB h2 h3, of "''secret''"]
    lookup_uploadB h2 h3
  show ?thesis by simp
qed

section \<open>Floating-point arithmetic: results\<close>

lemma pow2_powi: "pow2 k = 2 powi k"
  by (simp add: pow2_def power_int_def inverse_eq_divide power_one_over)

lemma pow2_pos: "0 < pow2 k"
  by (simp add: pow2_powi)

lemma pow2_mono: "i \<le> j \<Longrightarrow> pow2 i \<le> pow2 j"
  unfolding pow2_powi by (rule power_int_increasing) simp_all

lemma ulp_pos: "0 < ulp x"
  by (simp add: ulp_def pow2_pos)

lemma bitlen_one: "bitlen 1 = 1"
  by (simp add: compute_bitlen)

text \<open>\<open>floorlog2\<close> is the exponent of the binade.\<close>

lemma floorlog2_bounds:
  assumes "0 < x"
  shows "pow2 (floorlog2 x) \<le> x \<and> x < pow2 (floorlog2 x + 1)"
proof -
  obtain a b where q: "quotient_of x = (a, b)" by (cases "quotient_of x")
  have b: "0 < b" using q by (rule quotient_of_denom_pos)
  have x: "x = of_int a / of_int b" using q by (rule quotient_of_div)
  have a: "0 < a" using assms b unfolding x by (simp add: zero_less_divide_iff)
  let ?la = "bitlen a" and ?lb = "bitlen b"
  have la: "1 \<le> ?la" using a by (simp add: bitlen_alt_def)
  have lb: "1 \<le> ?lb" using b by (simp add: bitlen_alt_def)
  have ba: "(2::rat) powi (?la - 1) \<le> of_int a" "of_int a < (2::rat) powi ?la"
  proof -
    from bitlen_bounds [OF a] have "(2::int) ^ nat (?la - 1) \<le> a" "a < 2 ^ nat ?la" by simp_all
    then have "(of_int ((2::int) ^ nat (?la - 1)) :: rat) \<le> of_int a"
      "(of_int a :: rat) < of_int (2 ^ nat ?la)"
      by (simp_all only: of_int_le_iff of_int_less_iff)
    then show "(2::rat) powi (?la - 1) \<le> of_int a" "of_int a < (2::rat) powi ?la"
      using la by (simp_all add: power_int_def)
  qed
  have bb: "(2::rat) powi (?lb - 1) \<le> of_int b" "of_int b < (2::rat) powi ?lb"
  proof -
    from bitlen_bounds [OF b] have "(2::int) ^ nat (?lb - 1) \<le> b" "b < 2 ^ nat ?lb" by simp_all
    then have "(of_int ((2::int) ^ nat (?lb - 1)) :: rat) \<le> of_int b"
      "(of_int b :: rat) < of_int (2 ^ nat ?lb)"
      by (simp_all only: of_int_le_iff of_int_less_iff)
    then show "(2::rat) powi (?lb - 1) \<le> of_int b" "of_int b < (2::rat) powi ?lb"
      using lb by (simp_all add: power_int_def)
  qed
  let ?k = "?la - ?lb"
  have lo: "pow2 (?k - 1) \<le> x"
  proof -
    have "(2::rat) powi (?k - 1) = 2 powi (?la - 1) / 2 powi ?lb"
      by (simp add: power_int_diff)
    also have "\<dots> \<le> of_int a / of_int b"
      using ba(1) bb(2) a b by (intro frac_le) simp_all
    finally show ?thesis by (simp add: pow2_powi x)
  qed
  have hi: "x < pow2 (?k + 1)"
  proof -
    have "of_int a / of_int b < (2::rat) powi ?la / 2 powi (?lb - 1)"
      using ba(2) bb(1) a b by (intro frac_less) simp_all
    also have "\<dots> = 2 powi (?k + 1)"
      by (simp add: power_int_diff power_int_add)
    finally show ?thesis by (simp add: pow2_powi x)
  qed
  show ?thesis
    using lo hi by (simp add: floorlog2_def q Let_def)
qed

lemma roundEven_of_int: "roundEven (of_int m) = m"
  by (simp add: roundEven_def)

lemma roundEven_close: "\<bar>of_int (roundEven q) - q\<bar> \<le> 1 / 2"
proof -
  have "of_int \<lfloor>q\<rfloor> \<le> q" "q < of_int \<lfloor>q\<rfloor> + 1" by linarith+
  then show ?thesis
    unfolding roundEven_def Let_def
    by (simp add: abs_if not_less del: of_int_floor_le)
qed

text \<open>
  A finite result of \<open>round64\<close> is a binary64 number (a mantissa of at most 53 bits times
  a power of two not below \<open>2^(-1074)\<close>, of magnitude below \<open>2^1024\<close>) and lies within half
  a unit in the last place of the exact value.
\<close>

lemma round64_value:
  assumes "round64 x = Finite y"
  shows "y = of_int (roundEven (x / ulp x)) * ulp x"
proof (cases "x = 0")
  case True
  with assms show ?thesis by (simp add: round64_def roundEven_def)
next
  case False
  with assms show ?thesis
    by (auto simp: round64_def Let_def split: if_splits)
qed

lemma round64_nearest:
  assumes "round64 x = Finite y"
  shows "\<bar>y - x\<bar> \<le> ulp x / 2"
proof -
  let ?u = "ulp x"
  have u: "0 < ?u" by (rule ulp_pos)
  have "y - x = (of_int (roundEven (x / ?u)) - x / ?u) * ?u"
    using u by (simp add: round64_value [OF assms] algebra_simps)
  then have "\<bar>y - x\<bar> = \<bar>of_int (roundEven (x / ?u)) - x / ?u\<bar> * ?u"
    using u by (simp add: abs_mult)
  also have "\<dots> \<le> (1 / 2) * ?u"
    using roundEven_close [of "x / ?u"] u by (intro mult_right_mono) simp_all
  finally show ?thesis by simp
qed

lemma mantissa_bound: "\<bar>roundEven (x / ulp x)\<bar> \<le> 2 ^ 53"
proof (cases "x = 0")
  case True
  then show ?thesis by (simp add: roundEven_def)
next
  case False
  let ?fl = "floorlog2 \<bar>x\<bar>"
  let ?u = "ulp x"
  let ?q = "x / ?u"
  have u: "0 < ?u" by (rule ulp_pos)
  have "\<bar>x\<bar> < pow2 (?fl + 1)" using floorlog2_bounds [of "\<bar>x\<bar>"] False by simp
  also have "pow2 (?fl + 1) = 2 ^ 53 * pow2 (?fl - 52)"
  proof -
    have "?fl + 1 = 53 + (?fl - 52)" by simp
    then have "(2::rat) powi (?fl + 1) = 2 powi (53 + (?fl - 52))" by (rule arg_cong)
    also have "\<dots> = 2 powi 53 * 2 powi (?fl - 52)" by (rule power_int_add) simp
    finally show ?thesis by (simp add: pow2_powi)
  qed
  also have "\<dots> \<le> 2 ^ 53 * ?u"
    unfolding ulp_def by (intro mult_left_mono pow2_mono) simp_all
  finally have "\<bar>x\<bar> < 2 ^ 53 * ?u" .
  then have "\<bar>x\<bar> / ?u < 2 ^ 53" using u by (simp add: pos_divide_less_eq)
  then have q: "\<bar>?q\<bar> < 2 ^ 53" using u by (simp add: abs_divide)
  have "\<bar>of_int (roundEven ?q) :: rat\<bar> \<le> \<bar>of_int (roundEven ?q) - ?q\<bar> + \<bar>?q\<bar>" by linarith
  also have "\<dots> < 1 / 2 + 2 ^ 53" using roundEven_close [of ?q] q by linarith
  finally have "(of_int \<bar>roundEven ?q\<bar> :: rat) < of_int (2 ^ 53 + 1)" by simp
  then have "\<bar>roundEven ?q\<bar> < 2 ^ 53 + 1" by (simp only: of_int_less_iff)
  then show ?thesis by simp
qed

lemma round64_representable:
  assumes "round64 x = Finite y"
  shows "\<exists>m e. y = of_int m * pow2 e \<and> \<bar>m\<bar> \<le> 2 ^ 53 \<and> - 1074 \<le> e \<and> \<bar>y\<bar> < pow2 1024"
proof -
  let ?e = "max (floorlog2 \<bar>x\<bar>) (- 1022) - 52"
  have v: "y = of_int (roundEven (x / ulp x)) * pow2 ?e"
    using round64_value [OF assms] by (simp add: ulp_def)
  have small: "\<bar>y\<bar> < pow2 1024"
  proof (cases "y = 0")
    case True
    then show ?thesis by (simp add: pow2_pos)
  next
    case False
    then have x: "x \<noteq> 0" using assms by (auto simp: round64_def)
    have "floorlog2 \<bar>y\<bar> < 1024"
      using assms x v by (auto simp: round64_def Let_def ulp_def split: if_splits)
    then have "pow2 (floorlog2 \<bar>y\<bar> + 1) \<le> pow2 1024" by (intro pow2_mono) simp
    moreover have "\<bar>y\<bar> < pow2 (floorlog2 \<bar>y\<bar> + 1)"
      using floorlog2_bounds [of "\<bar>y\<bar>"] False by simp
    ultimately show ?thesis by linarith
  qed
  from v mantissa_bound [of x] small show ?thesis
    by (intro exI [of _ "roundEven (x / ulp x)"] exI [of _ ?e]) simp
qed

text \<open>Integers of magnitude below \<open>2^53\<close> are not changed by rounding.\<close>

lemma floorlog2_int_le:
  assumes "0 < n" and "n < 2 ^ 53"
  shows "floorlog2 (of_int n) \<le> 52"
proof -
  have "bitlen n \<le> 53" using assms(2) by (simp add: bitlen_le_iff_power)
  then show ?thesis
    by (simp add: floorlog2_def Rat.quotient_of_rat_of_int Let_def bitlen_one)
qed

lemma ulp_small:
  assumes "floorlog2 \<bar>x\<bar> \<le> 52"
  shows "\<exists>m. ulp x = 1 / 2 ^ m"
proof -
  let ?j = "max (floorlog2 \<bar>x\<bar>) (- 1022) - 52"
  have "?j \<le> 0" using assms by simp
  then have "pow2 ?j = 1 / 2 ^ nat (- ?j)"
    by (cases "?j = 0") (simp_all add: pow2_def)
  then show ?thesis unfolding ulp_def by blast
qed

lemma round64_int:
  assumes "\<bar>n\<bar> < 2 ^ 53"
  shows "round64 (of_int n) = Finite (of_int n)"
proof (cases "n = 0")
  case True
  then show ?thesis by (simp add: round64_def)
next
  case False
  let ?x = "of_int n :: rat"
  have ax: "\<bar>?x\<bar> = of_int \<bar>n\<bar>" by simp
  have fl: "floorlog2 \<bar>?x\<bar> \<le> 52"
    unfolding ax using False assms by (intro floorlog2_int_le) simp_all
  from ulp_small [OF fl] obtain m where u: "ulp ?x = 1 / 2 ^ m" by blast
  have q: "?x / ulp ?x = of_int (n * 2 ^ m)" by (simp add: u)
  have y: "of_int (roundEven (?x / ulp ?x)) * ulp ?x = ?x"
    unfolding q roundEven_of_int by (simp add: u)
  show ?thesis
    using False fl by (simp add: round64_def Let_def y)
qed

text \<open>
  Some values: the \<^verbatim>\<open>float64\<close> nearest to one tenth, a tie that goes to the even
  mantissa, and ten milliseconds in seconds.
\<close>

lemma round64_examples:
  "round64 (1 / 10) = Finite (3602879701896397 / 36028797018963968)"
  "round64 9007199254740993 = Finite 9007199254740992"
  "round64 9007199254740995 = Finite 9007199254740996"
  "Seconds 10000000 = Finite (5764607523034235 / 576460752303423488)"
  by code_simp+

section \<open>Admission limiter: results\<close>

lemma visitor_updates:
  "(v :: visitor)\<lparr>tokens := a, lastCheck := b\<rparr> = \<lparr>tokens = a, lastCheck = b\<rparr>"
  "(v :: visitor)\<lparr>lastCheck := b, tokens := a\<rparr> = \<lparr>tokens = a, lastCheck = b\<rparr>"
  by (cases v; simp)+

text \<open>
  The code, which updates the entry in place step by step, computes the transition of
  the specification, and touches the entry of no other address.
\<close>

lemma allow_transition:
  "allow fused rl ip now =
     (fst (specTransition fused (rate rl) (burst rl) (visitors rl ip) now),
      rl\<lparr>visitors := (visitors rl)(ip \<mapsto>
           snd (specTransition fused (rate rl) (burst rl) (visitors rl ip) now))\<rparr>)"
  by (cases "visitors rl ip")
     (simp_all add: allow_def specTransition_def specBalance_def Let_def visitor_updates)

lemma Sub_same: "Sub t t = 0"
  by (simp add: Sub_def)

lemma Seconds_zero: "Seconds 0 = Finite 0"
  by (simp add: Seconds_def quo_def rem_def ofInt_def round64_def fdiv_def fadd_def)

lemma ofInt_small: "\<bar>n\<bar> < 2 ^ 53 \<Longrightarrow> ofInt n = Finite (of_int n)"
  by (simp add: ofInt_def round64_int)

text \<open>
  At the instant of the last check nothing is added, whatever the (finite) rate and
  whether or not the operations are fused: a whole balance stays as it is.
\<close>

lemma specBalance_same_instant:
  assumes "lastCheck v = now" and "tokens v = Finite (of_int k)" and "0 \<le> k" and "k \<le> b"
    and "b < 2 ^ 53"
  shows "specBalance fused (Finite r) b v now = Finite (of_int k)"
proof -
  have k: "\<bar>k\<bar> < 2 ^ 53" and b: "\<bar>b\<bar> < 2 ^ 53" using assms(3-5) by simp_all
  have idle: "fma (Finite 0) (Finite r) (Finite (of_int k)) = Finite (of_int k)"
    "fadd (Finite (of_int k)) (fmul (Finite 0) (Finite r)) = Finite (of_int k)"
    using round64_int [OF k] by (simp_all add: fma_def fadd_def fmul_def round64_def)
  show ?thesis
    using assms(4)
    by (simp add: specBalance_def Let_def assms(1,2) Sub_same Seconds_zero idle
        ofInt_small [OF b] fgt_def flt_def)
qed

lemma sub_one:
  assumes "0 < k" and "k < 2 ^ 53"
  shows "fsub (Finite (of_int k)) (Finite 1) = Finite (of_int (k - 1))"
proof -
  have "\<bar>k - 1\<bar> < 2 ^ 53" using assms by simp
  from round64_int [OF this] show ?thesis
    by (simp add: fsub_def fadd_def fneg_def)
qed

text \<open>
  Requests that all arrive at the instant of the last check find no refill: an entry with
  \<open>k\<close> whole tokens lets exactly the next \<open>k\<close> of them through.
\<close>

lemma serve_drain:
  assumes "visitors rl ip = Some v" and "lastCheck v = now" and "tokens v = Finite (of_nat k)"
    and "int k \<le> burst rl" and "burst rl < 2 ^ 53" and "rate rl = Finite r"
  shows "serve fused rl ip (replicate n now) = replicate (min n k) True @ replicate (n - k) False"
  using assms
proof (induction n arbitrary: rl v k)
  case 0
  show ?case by simp
next
  case (Suc n)
  have tk: "tokens v = Finite (of_int (int k))" using Suc.prems(3) by simp
  have bal: "specBalance fused (rate rl) (burst rl) v now = Finite (of_nat k)"
    unfolding Suc.prems(6)
    using specBalance_same_instant [OF Suc.prems(2) tk _ Suc.prems(4,5), of fused r] by simp
  show ?case
  proof (cases k)
    case 0
    let ?v' = "\<lparr>tokens = Finite 0, lastCheck = now\<rparr>"
    let ?rl' = "rl\<lparr>visitors := (visitors rl)(ip \<mapsto> ?v')\<rparr>"
    have step: "allow fused rl ip now = (False, ?rl')"
      unfolding allow_transition
      using bal 0 by (simp add: specTransition_def Suc.prems(1) flt_def)
    have "serve fused ?rl' ip (replicate n now) = replicate (min n 0) True @ replicate (n - 0) False"
      by (rule Suc.IH [where v = ?v' and k = 0])
         (use Suc.prems(4,5,6) 0 in simp_all)
    with step 0 show ?thesis by simp
  next
    case (Suc j)
    let ?v' = "\<lparr>tokens = Finite (of_nat j), lastCheck = now\<rparr>"
    let ?rl' = "rl\<lparr>visitors := (visitors rl)(ip \<mapsto> ?v')\<rparr>"
    have "0 < int k" "int k < 2 ^ 53" using Suc Suc.prems(4,5) by simp_all
    from sub_one [OF this] have s1: "fsub (Finite (of_nat k)) (Finite 1) = Finite (of_nat j)"
      using Suc by simp
    have step: "allow fused rl ip now = (True, ?rl')"
      unfolding allow_transition
      using bal Suc s1 by (simp add: specTransition_def Suc.prems(1) flt_def)
    have "serve fused ?rl' ip (replicate n now) = replicate (min n j) True @ replicate (n - j) False"
      using Suc.prems(4,5,6) Suc by (intro Suc.IH [where v = ?v']) simp_all
    with step Suc show ?thesis by simp
  qed
qed

text \<open>
  A burst of a new address: with a burst size \<open>b\<close> between 1 and \<open>2^53\<close> and any finite
  rate, of the requests that arrive at one instant the first \<open>b\<close> pass and all later
  ones are refused.
\<close>

lemma serve_burst:
  assumes "visitors rl ip = None" and "0 < burst rl" and "burst rl < 2 ^ 53"
    and "rate rl = Finite r"
  shows "serve fused rl ip (replicate (Suc n) now) =
           replicate (min (Suc n) (nat (burst rl))) True @ replicate (Suc n - nat (burst rl)) False"
proof -
  obtain k where nk: "nat (burst rl) = Suc k"
    using assms(2) by (cases "nat (burst rl)") auto
  then have k: "burst rl = int (Suc k)" using assms(2) by linarith
  let ?v = "\<lparr>tokens = Finite (of_nat k), lastCheck = now\<rparr>"
  let ?rl' = "rl\<lparr>visitors := (visitors rl)(ip \<mapsto> ?v)\<rparr>"
  have b: "\<bar>burst rl\<bar> < 2 ^ 53" using assms(2,3) by simp
  have "fsub (ofInt (burst rl)) (Finite 1) = Finite (of_nat k)"
    unfolding ofInt_small [OF b] using sub_one [OF assms(2,3)] k by simp
  then have first: "allow fused rl ip now = (True, ?rl')"
    unfolding allow_transition by (simp add: specTransition_def assms(1))
  have rest: "serve fused ?rl' ip (replicate n now) =
      replicate (min n k) True @ replicate (n - k) False"
    by (rule serve_drain [where v = ?v and r = r]) (use k assms(3,4) in simp_all)
  show ?thesis
    unfolding nk by (simp add: first rest)
qed

text \<open>
  Claim C5. \<^verbatim>\<open>allow\<close> is the token-bucket transition, computed in \<^verbatim>\<open>float64\<close>: an
  address without an entry gets one with \<open>b - 1\<close> tokens and the current timestamp and is
  let through; otherwise \<open>elapsed * r\<close> tokens are added, capped at \<open>b\<close>, the timestamp
  is updated, and the request is refused with the balance kept when the balance is below
  1, let through with one token taken otherwise. With \<open>r = 10\<close> and \<open>b = 20\<close>, of 21
  requests of a new address at one instant the first 20 pass and the 21st is refused.
  Both hold whether or not the compiler fuses the multiplication and the addition.
\<close>

theorem allow_is_token_bucket:
  "(visitors rl ip = None \<longrightarrow>
      allow fused rl ip now =
        (True, rl\<lparr>visitors := (visitors rl)(ip \<mapsto>
                 \<lparr>tokens = fsub (ofInt (burst rl)) (Finite 1), lastCheck = now\<rparr>)\<rparr>)) \<and>
   (\<forall>v. visitors rl ip = Some v \<longrightarrow>
      allow fused rl ip now =
        (let balance = specBalance fused (rate rl) (burst rl) v now
         in if flt balance (Finite 1)
            then (False, rl\<lparr>visitors := (visitors rl)(ip \<mapsto>
                          \<lparr>tokens = balance, lastCheck = now\<rparr>)\<rparr>)
            else (True, rl\<lparr>visitors := (visitors rl)(ip \<mapsto>
                         \<lparr>tokens = fsub balance (Finite 1), lastCheck = now\<rparr>)\<rparr>))) \<and>
   (rate rl = Finite 10 \<and> burst rl = 20 \<and> visitors rl ip = None \<longrightarrow>
      serve fused rl ip (replicate 21 now) = replicate 20 True @ [False])"
proof (intro conjI allI impI)
  assume "visitors rl ip = None"
  then show "allow fused rl ip now =
        (True, rl\<lparr>visitors := (visitors rl)(ip \<mapsto>
                 \<lparr>tokens = fsub (ofInt (burst rl)) (Finite 1), lastCheck = now\<rparr>)\<rparr>)"
    unfolding allow_transition by (simp add: specTransition_def)
next
  fix v assume "visitors rl ip = Some v"
  then show "allow fused rl ip now =
        (let balance = specBalance fused (rate rl) (burst rl) v now
         in if flt balance (Finite 1)
            then (False, rl\<lparr>visitors := (visitors rl)(ip \<mapsto>
                          \<lparr>tokens = balance, lastCheck = now\<rparr>)\<rparr>)
            else (True, rl\<lparr>visitors := (visitors rl)(ip \<mapsto>
                         \<lparr>tokens = fsub balance (Finite 1), lastCheck = now\<rparr>)\<rparr>))"
    unfolding allow_transition by (simp add: specTransition_def Let_def)
next
  assume a: "rate rl = Finite 10 \<and> burst rl = 20 \<and> visitors rl ip = None"
  then have "serve fused rl ip (replicate (Suc 20) now) =
      replicate (min (Suc 20) (nat (burst rl))) True @ replicate (Suc 20 - nat (burst rl)) False"
    by (intro serve_burst [where r = 10]) simp_all
  with a show "serve fused rl ip (replicate 21 now) = replicate 20 True @ [False]"
    by (simp add: numeral_eq_Suc)
qed

lemma drained_entry:
  "visitors drainedLimiter ''203.0.113.7'' = Some \<lparr>tokens = Finite 0, lastCheck = 0\<rparr>"
  "rate drainedLimiter = Finite 10" "burst drainedLimiter = 20"
  by (simp_all add: drainedLimiter_def)

text \<open>
  The balance of the drained entry 50 ms, 250 ms, 3 s and 10 ms later: a half, two and a
  half, the cap, and the \<^verbatim>\<open>float64\<close> nearest to one tenth.
\<close>

lemma drained_balances:
  "specBalance False (Finite 10) 20 \<lparr>tokens = Finite 0, lastCheck = 0\<rparr> 50000000 = Finite (1 / 2)"
  "specBalance False (Finite 10) 20 \<lparr>tokens = Finite 0, lastCheck = 0\<rparr> 250000000 = Finite (5 / 2)"
  "specBalance False (Finite 10) 20 \<lparr>tokens = Finite 0, lastCheck = 0\<rparr> 3000000000 = Finite 20"
  "specBalance False (Finite 10) 20 \<lparr>tokens = Finite 0, lastCheck = 0\<rparr> 10000000 =
     Finite (3602879701896397 / 36028797018963968)"
  "fsub (Finite (5 / 2)) (Finite 1) = Finite (3 / 2)"
  "fsub (Finite 20) (Finite 1) = Finite 19"
  "fsub (ofInt 20) (Finite 1) = Finite 19"
  by code_simp+

theorem allow_is_token_bucket_witness:
  "visitors defaultLimiter ''203.0.113.7'' = None \<and>
   rate defaultLimiter = Finite 10 \<and> burst defaultLimiter = 20 \<and>
   allow False defaultLimiter ''203.0.113.7'' 5 =
     (True, defaultLimiter\<lparr>visitors := (visitors defaultLimiter)(''203.0.113.7'' \<mapsto>
              \<lparr>tokens = Finite 19, lastCheck = 5\<rparr>)\<rparr>) \<and>
   serve False defaultLimiter ''203.0.113.7'' (replicate 21 5) = replicate 20 True @ [False] \<and>
   serve True defaultLimiter ''203.0.113.7'' (replicate 21 5) = replicate 20 True @ [False] \<and>
   visitors drainedLimiter ''203.0.113.7'' = Some \<lparr>tokens = Finite 0, lastCheck = 0\<rparr> \<and>
   allow False drainedLimiter ''203.0.113.7'' 50000000 =
     (False, drainedLimiter\<lparr>visitors := (visitors drainedLimiter)(''203.0.113.7'' \<mapsto>
              \<lparr>tokens = Finite (1 / 2), lastCheck = 50000000\<rparr>)\<rparr>) \<and>
   allow False drainedLimiter ''203.0.113.7'' 250000000 =
     (True, drainedLimiter\<lparr>visitors := (visitors drainedLimiter)(''203.0.113.7'' \<mapsto>
              \<lparr>tokens = Finite (3 / 2), lastCheck = 250000000\<rparr>)\<rparr>) \<and>
   allow False drainedLimiter ''203.0.113.7'' 3000000000 =
     (True, drainedLimiter\<lparr>visitors := (visitors drainedLimiter)(''203.0.113.7'' \<mapsto>
              \<lparr>tokens = Finite 19, lastCheck = 3000000000\<rparr>)\<rparr>) \<and>
   allow False drainedLimiter ''203.0.113.7'' 10000000 =
     (False, drainedLimiter\<lparr>visitors := (visitors drainedLimiter)(''203.0.113.7'' \<mapsto>
              \<lparr>tokens = Finite (3602879701896397 / 36028797018963968),
               lastCheck = 10000000\<rparr>)\<rparr>)"
proof -
  have h: "visitors defaultLimiter ''203.0.113.7'' = None" "rate defaultLimiter = Finite 10"
    "burst defaultLimiter = 20"
    by (simp_all add: defaultLimiter_def)
  from allow_is_token_bucket [of defaultLimiter "''203.0.113.7''" False 5]
    allow_is_token_bucket [of defaultLimiter "''203.0.113.7''" True 5]
    allow_is_token_bucket [of drainedLimiter "''203.0.113.7''" False 50000000]
    allow_is_token_bucket [of drainedLimiter "''203.0.113.7''" False 250000000]
    allow_is_token_bucket [of drainedLimiter "''203.0.113.7''" False 3000000000]
    allow_is_token_bucket [of drainedLimiter "''203.0.113.7''" False 10000000]
  show ?thesis
    by (simp add: h drained_entry drained_balances flt_def)
qed

text \<open>
  The refill is rounded. Requests every 10 ms after the bucket has been drained each add
  the \<^verbatim>\<open>float64\<close> nearest to one tenth; after ten of them the balance is
  \<open>1 - 2^(-53)\<close>, not 1, so the request at 100 ms is still refused and the first one to
  pass is the one at 110 ms.
\<close>

lemma allow_refill_is_rounded:
  "serve False drainedLimiter ''203.0.113.7''
     [10000000, 20000000, 30000000, 40000000, 50000000, 60000000, 70000000, 80000000,
      90000000, 100000000, 110000000] =
   replicate 10 False @ [True]"
  "visitors (serveState False drainedLimiter ''203.0.113.7''
     [10000000, 20000000, 30000000, 40000000, 50000000, 60000000, 70000000, 80000000,
      90000000, 100000000]) ''203.0.113.7'' =
   Some \<lparr>tokens = Finite (9007199254740991 / 9007199254740992), lastCheck = 100000000\<rparr>"
  by code_simp+

section \<open>Structural scan: results\<close>

lemma scanEntries_dangerous_iff:
  "scanEntries ul fs t = Inl ErrDangerousFile \<longleftrightarrow>
     (\<exists>f \<in> set fs. ToLower ul (Ext (Name f)) \<in> set dangerousExtensions)"
  by (induction fs arbitrary: t) (auto simp: Let_def)

lemma scanEntries_total:
  "\<forall>f \<in> set fs. ToLower ul (Ext (Name f)) \<notin> set dangerousExtensions \<Longrightarrow>
     scanEntries ul fs t = Inr (sint (t + sum_list (map UncompressedSize64 fs)))"
  by (induction fs arbitrary: t) (auto simp: Let_def add.assoc)

lemma uint_sum_list_small:
  "(\<Sum>f\<leftarrow>fs. uint (UncompressedSize64 f)) < 2 ^ 63 \<Longrightarrow>
     uint (sum_list (map UncompressedSize64 fs)) = (\<Sum>f\<leftarrow>fs. uint (UncompressedSize64 f))"
proof (induction fs)
  case Nil
  show ?case by simp
next
  case (Cons f fs)
  have tail: "(\<Sum>f\<leftarrow>fs. uint (UncompressedSize64 f)) < 2 ^ 63"
    using Cons.prems uint_ge_0 [of "UncompressedSize64 f"]
    unfolding list.map sum_list.Cons by linarith
  have small: "uint (UncompressedSize64 f) + uint (sum_list (map UncompressedSize64 fs)) < 2 ^ 64"
    using Cons.prems Cons.IH [OF tail] by simp
  have "uint (UncompressedSize64 f + sum_list (map UncompressedSize64 fs)) =
        uint (UncompressedSize64 f) + uint (sum_list (map UncompressedSize64 fs))"
    using small by (simp add: uint_add_lem [THEN iffD1])
  then show ?case using Cons.IH [OF tail] by simp
qed

lemma sint_small:
  assumes "uint (w :: 64 word) < 2 ^ 63"
  shows "sint w = uint w"
proof -
  have lo: "- (2 ^ 63) \<le> uint w"
    by (rule order_trans [OF _ uint_ge_0]) simp
  have "signed_take_bit 63 (uint w) = uint w"
    using lo assms by (rule signed_take_bit_int_eq_self)
  then show ?thesis by (simp add: sint_uint)
qed

text \<open>
  What \<^verbatim>\<open>validateAndMeasureZip\<close> does on every buffer, as long as the declared sizes add
  up to less than \<open>2^63\<close>.
\<close>

lemma validateAndMeasureZip_in_range:
  "(zr data = None \<longrightarrow> validateAndMeasureZip zr ul data = Inl ErrInvalidZip) \<and>
   (\<forall>fs. zr data = Some fs \<longrightarrow>
      (validateAndMeasureZip zr ul data = Inl ErrDangerousFile \<longleftrightarrow>
         (\<exists>f \<in> set fs. ToLower ul (Ext (Name f)) \<in> set dangerousExtensions)) \<and>
      ((\<forall>f \<in> set fs. ToLower ul (Ext (Name f)) \<notin> set dangerousExtensions) \<and>
       (\<Sum>f\<leftarrow>fs. uint (UncompressedSize64 f)) < 2 ^ 63 \<longrightarrow>
         validateAndMeasureZip zr ul data = Inr (\<Sum>f\<leftarrow>fs. uint (UncompressedSize64 f))))"
  by (auto simp: validateAndMeasureZip_def scanEntries_dangerous_iff scanEntries_total
      sint_small uint_sum_list_small)

lemma dangerousExtensions_count: "length dangerousExtensions = 16 \<and> distinct dangerousExtensions"
  by (simp add: dangerousExtensions_def)

text \<open>
  Claim C6 says that, when no entry is denylisted, the scan returns the sum of the declared
  uncompressed sizes. The sum is kept in an \<^verbatim>\<open>int64\<close> and each \<^verbatim>\<open>uint64\<close> size is
  converted without a check, so it wraps: for an archive whose single entry \<^verbatim>\<open>a.txt\<close>
  declares \<open>2^63\<close> bytes the scan returns \<open>- 2^63\<close>, where the sum of the declared sizes
  is \<open>2^63\<close>.
\<close>

theorem validateAndMeasureZip_size_wraps:
  "validateAndMeasureZip (\<lambda>d. Some [hugeEntry]) (\<lambda>s. s) sampleZip =
     Inr (- 9223372036854775808) \<and>
   ToLower (\<lambda>s. s) (Ext (Name hugeEntry)) \<notin> set dangerousExtensions \<and>
   (\<Sum>f\<leftarrow>[hugeEntry]. uint (UncompressedSize64 f)) = 9223372036854775808"
  by code_simp

section \<open>Filename sanitization: results\<close>

lemma extScan_set: "set (extScan cs acc) \<subseteq> set cs \<union> set acc"
proof (induction cs arbitrary: acc)
  case Nil
  show ?case by simp
next
  case (Cons c cs)
  from Cons.IH [of "c # acc"] show ?case by auto
qed

lemma extScan_length: "length (extScan cs acc) \<le> length cs + length acc"
proof (induction cs arbitrary: acc)
  case Nil
  show ?case by simp
next
  case (Cons c cs)
  from Cons.IH [of "c # acc"] show ?case by simp
qed

lemma Ext_set: "set (Ext p) \<subseteq> set p"
  using extScan_set [of "rev p" "[]"] by (simp add: Ext_def)

lemma Ext_length: "length (Ext p) \<le> length p"
  using extScan_length [of "rev p" "[]"] by (simp add: Ext_def)

lemma Base_nonempty: "Base p \<noteq> []"
  by (simp add: Base_def Let_def)

lemma Base_slash: "CHR ''/'' \<in> set (Base p) \<Longrightarrow> Base p = ''/''"
  by (auto simp: Base_def Let_def split: if_splits dest: set_takeWhileD)

lemma Base_set: "set (Base p) \<subseteq> insert (CHR ''.'') (insert (CHR ''/'') (set p))"
  by (auto simp: Base_def Let_def split: if_splits dest!: set_takeWhileD set_dropWhileD)

lemma replaceBackslashes_set: "backslash \<notin> set (replaceBackslashes n)"
  by (auto simp: replaceBackslashes_def backslash_def)

text \<open>
  \<^verbatim>\<open>sanitizeFilename\<close> returns unless the extension of the base name is longer than 255
  bytes, and what it returns is bounded and free of separators, the lone \<^verbatim>\<open>/\<close> that
  \<^verbatim>\<open>filepath.Base\<close> gives for a name of separators only apart.
\<close>

lemma sanitizeFilename_returns_iff:
  "(\<exists>r. sanitizeFilename n = Inr r) \<longleftrightarrow> length (Ext (Base (replaceBackslashes n))) \<le> 255"
  using Ext_length [of "Base (replaceBackslashes n)"]
  by (auto simp: sanitizeFilename_def Let_def)

lemma sanitizeFilename_truncates:
  assumes "length (Base (replaceBackslashes n)) > 255"
    and "length (Ext (Base (replaceBackslashes n))) \<le> 255"
  shows "sanitizeFilename n =
           Inr (take (255 - length (Ext (Base (replaceBackslashes n))))
                  (Base (replaceBackslashes n)) @ Ext (Base (replaceBackslashes n)))"
proof -
  define t where "t = take (255 - length (Ext (Base (replaceBackslashes n))))
                  (Base (replaceBackslashes n)) @ Ext (Base (replaceBackslashes n))"
  have run: "sanitizeFilename n = Inr (if t = [] \<or> t = ''.'' then ''upload.zip'' else t)"
    unfolding t_def using assms by (simp add: sanitizeFilename_def Let_def)
  have "length t = 255" unfolding t_def using assms by simp
  then have "t \<noteq> []" "t \<noteq> ''.''" by auto
  then show ?thesis unfolding run t_def [symmetric] by simp
qed

lemma sanitizeFilename_result:
  assumes "sanitizeFilename n = Inr r"
  shows "length r \<le> 255 \<and> r \<noteq> [] \<and> r \<noteq> ''.'' \<and> backslash \<notin> set r \<and>
         (CHR ''/'' \<in> set r \<longrightarrow> r = ''/'')"
proof -
  define name2 where "name2 = Base (replaceBackslashes n)"
  define ext where "ext = Ext name2"
  have nb: "backslash \<notin> set name2"
    using Base_set [of "replaceBackslashes n"] replaceBackslashes_set [of n]
    by (auto simp: name2_def backslash_def)
  have sl: "CHR ''/'' \<in> set name2 \<Longrightarrow> name2 = ''/''"
    unfolding name2_def by (rule Base_slash)
  have ne: "name2 \<noteq> []" unfolding name2_def by (rule Base_nonempty)
  have es: "set ext \<subseteq> set name2" unfolding ext_def by (rule Ext_set)
  show ?thesis
  proof (cases "length name2 > 255")
    case False
    then have "r = (if name2 = ''.'' then ''upload.zip'' else name2)"
      using assms ne by (auto simp: sanitizeFilename_def Let_def name2_def)
    then show ?thesis using False nb sl ne by (auto simp: backslash_def)
  next
    case True
    have "\<exists>r. sanitizeFilename n = Inr r" using assms by blast
    then have le: "length ext \<le> 255"
      unfolding ext_def name2_def by (simp only: sanitizeFilename_returns_iff)
    have r: "r = take (255 - length ext) name2 @ ext"
      using sanitizeFilename_truncates [of n] True le assms
      unfolding ext_def name2_def by simp
    have len: "length r = 255" using True le r by simp
    have nosl: "CHR ''/'' \<notin> set name2" using sl True by auto
    have "set r \<subseteq> set name2" using r es by (auto dest: in_set_takeD)
    then show ?thesis using len nb nosl by auto
  qed
qed

lemma sanitizeFilename_examples:
  "sanitizeFilename ''file.zip'' = Inr ''file.zip'' \<and>
   sanitizeFilename ''/path/to/file.zip'' = Inr ''file.zip'' \<and>
   sanitizeFilename (''C:'' @ [backslash] @ ''Users'' @ [backslash] @ ''file.zip'') = Inr ''file.zip'' \<and>
   sanitizeFilename [] = Inr ''upload.zip'' \<and>
   sanitizeFilename ''.'' = Inr ''upload.zip'' \<and>
   sanitizeFilename ''a/b/c.zip'' = Inr ''c.zip''"
  by code_simp

text \<open>
  The panic reaches \<^verbatim>\<open>ProcessUpload\<close> after the file has been stored: no row is
  created and the stored file stays.
\<close>

lemma ProcessUpload_long_extension:
  "fst (ProcessUpload quietEnv sampleConfig 1000 emptyWorld longExtName (Some sampleZip) 6 []) =
     Inl Panic \<and>
   records (snd (ProcessUpload quietEnv sampleConfig 1000 emptyWorld longExtName
     (Some sampleZip) 6 [])) = [] \<and>
   blobs (snd (ProcessUpload quietEnv sampleConfig 1000 emptyWorld longExtName
     (Some sampleZip) 6 [])) ''abcdefghijklmnop'' = Some sampleZip"
  by code_simp

text \<open>
  Claim C9 says that \<^verbatim>\<open>sanitizeFilename\<close> returns a name of at most 255 characters for
  every input. For a name whose extension alone is longer than 255 bytes the slice bound
  \<^verbatim>\<open>255-len(ext)\<close> is negative and the call panics: here for a dot followed by 255
  letters.
\<close>

theorem sanitizeFilename_long_extension_panics:
  "length longExtName = 256 \<and> sanitizeFilename longExtName = Inl Panic"
  by code_simp

text \<open>A name of separators only comes back as the separator.\<close>

lemma sanitizeFilename_only_separator: "sanitizeFilename ''/'' = Inr ''/''"
  by code_simp

end
